theory Spec2Isabelle
  imports
    Main
    "HOL-Library.Char_ord"
    "HOL-Library.List_Lexorder"
    "HOL-Library.Multiset"
    "HOL-Library.Sublist"
begin

section \<open>Strings as Python has them\<close>

text \<open>
  The seed script opens its input with \<^verbatim>\<open>encoding='latin-1'\<close>: every byte of the file is
  one character of the decoded line, so a line is a \<^typ>\<open>string\<close> (a list of 8-bit
  characters) and \<^verbatim>\<open>len(line)\<close> is \<^term>\<open>length line\<close>. A line as returned by
  \<^verbatim>\<open>readlines()\<close> still carries its line terminator.
\<close>

definition isspace :: "char \<Rightarrow> bool" where
  \<comment> \<open>\<^verbatim>\<open>str.isspace\<close> on the code points 0..255: TAB..CR, FS..US, space, NEL, NBSP.\<close>
  "isspace c =
     (let n = (of_char c :: nat)
      in (9 \<le> n \<and> n \<le> 13) \<or> (28 \<le> n \<and> n \<le> 32) \<or> n = 133 \<or> n = 160)"

definition strip :: "string \<Rightarrow> string" where
  \<comment> \<open>\<^verbatim>\<open>s.strip()\<close>: whitespace removed at both ends.\<close>
  "strip s = rev (dropWhile isspace (rev (dropWhile isspace s)))"

definition slice :: "nat \<Rightarrow> nat \<Rightarrow> 'a list \<Rightarrow> 'a list" where
  \<comment> \<open>\<^verbatim>\<open>s[a:b]\<close> for \<open>0 \<le> a \<le> b\<close>; Python clips a slice at the end of the sequence.\<close>
  "slice a b s = take (b - a) (drop a s)"

definition isdigit :: "char \<Rightarrow> bool" where
  "isdigit c = (let n = (of_char c :: nat) in 48 \<le> n \<and> n \<le> 57)"

definition digit_value :: "char \<Rightarrow> int" where
  "digit_value c = int (of_char c) - 48"

text \<open>
  \<^verbatim>\<open>int(s)\<close> in base 10. Both call sites pass a stripped string, so the whitespace that
  \<^verbatim>\<open>int\<close> would skip at the ends is not there; what remains of its grammar is an optional
  sign and decimal digits, where single underscores may separate digits. \<open>None\<close> is the
  \<^verbatim>\<open>ValueError\<close>.
\<close>

fun int_digits :: "int \<Rightarrow> string \<Rightarrow> int option" where
  "int_digits acc [] = Some acc"
| "int_digits acc (c # cs) =
     (if isdigit c then int_digits (10 * acc + digit_value c) cs
      else if c = CHR ''_'' then
        (case cs of
           [] \<Rightarrow> None
         | d # ds \<Rightarrow> if isdigit d then int_digits (10 * acc + digit_value d) ds else None)
      else None)"

definition int_unsigned :: "string \<Rightarrow> int option" where
  "int_unsigned s =
     (case s of
        [] \<Rightarrow> None
      | d # ds \<Rightarrow> if isdigit d then int_digits (digit_value d) ds else None)"

definition py_int :: "string \<Rightarrow> int option" where
  "py_int s =
     (case s of
        [] \<Rightarrow> None
      | c # cs \<Rightarrow>
          if c = CHR ''-'' then map_option uminus (int_unsigned cs)
          else if c = CHR ''+'' then int_unsigned cs
          else int_unsigned s)"

definition lower_char :: "char \<Rightarrow> char" where
  \<comment> \<open>\<^verbatim>\<open>str.lower\<close> on one Latin-1 character: A..Z and the accented capitals.\<close>
  "lower_char c =
     (let n = (of_char c :: nat)
      in if (65 \<le> n \<and> n \<le> 90) \<or> (192 \<le> n \<and> n \<le> 222 \<and> n \<noteq> 215)
         then char_of (n + 32) else c)"

definition lower :: "string \<Rightarrow> string" where
  "lower s = map lower_char s"

section \<open>The fixed-width parser and the admission rule\<close>

record player =
  fide_id :: string
  name :: string
  federation :: string
  rating :: int
  birth_year :: "int option"
  sex :: string
  title :: "string option"
  rank :: "int option"

text \<open>
  The loop of \<^verbatim>\<open>parse_fide_text_file\<close> carries the list of players and the two counters
  that the summary prints.
\<close>

record parse_state =
  players :: "player list"
  skipped_invalid :: nat
  skipped_low_rating :: nat

definition parse_birth_year :: "string \<Rightarrow> int option" where
  \<comment> \<open>lines 95-102: the sanity check resets an implausible year, a \<^verbatim>\<open>ValueError\<close> is passed over\<close>
  "parse_birth_year birthday_str =
     (if birthday_str \<noteq> [] \<and> length birthday_str \<ge> 4 then
        (case py_int (slice 0 4 birthday_str) of
           Some year \<Rightarrow> if year < 1900 \<or> year > 2024 then None else Some year
         | None \<Rightarrow> None)
      else None)"

definition parse_line :: "int \<Rightarrow> string set \<Rightarrow> string \<Rightarrow> parse_state \<Rightarrow> parse_state" where
  \<comment> \<open>one iteration of the loop at lines 48-120\<close>
  "parse_line min_rating existing_fide_ids line st =
     (if length line < 123 then st\<lparr>skipped_invalid := skipped_invalid st + 1\<rparr>
      else
        let fide_id = strip (slice 0 15 line);
            name = strip (slice 15 76 line);
            federation = strip (slice 76 79 line);
            sex = strip (slice 79 80 line);
            rating_str = strip (slice 113 117 line);
            birthday_str = strip (slice 126 130 line)
        in if fide_id = [] \<or> rating_str = [] \<or> name = []
           then st\<lparr>skipped_invalid := skipped_invalid st + 1\<rparr>
           else
             (case py_int rating_str of
                None \<Rightarrow> st\<lparr>skipped_invalid := skipped_invalid st + 1\<rparr>
              | Some rating_int \<Rightarrow>
                  if rating_int < min_rating \<and> fide_id \<notin> existing_fide_ids
                  then st\<lparr>skipped_low_rating := skipped_low_rating st + 1\<rparr>
                  else st\<lparr>players := players st @
                         [\<lparr>fide_id = fide_id, name = name, federation = federation,
                           rating = rating_int, birth_year = parse_birth_year birthday_str,
                           sex = sex, title = None, rank = None\<rparr>]\<rparr>))"

definition data_lines :: "string list \<Rightarrow> string list" where
  \<comment> \<open>line 27: the header is dropped, and so is every line that is only whitespace\<close>
  "data_lines lines = filter (\<lambda>line. strip line \<noteq> []) (drop 1 lines)"

definition parse_summary :: "string list \<Rightarrow> int \<Rightarrow> string set \<Rightarrow> parse_state" where
  "parse_summary lines min_rating existing_fide_ids =
     fold (parse_line min_rating existing_fide_ids) (data_lines lines)
       \<lparr>players = [], skipped_invalid = 0, skipped_low_rating = 0\<rparr>"

definition parse_fide_text_file :: "string list \<Rightarrow> int \<Rightarrow> string set \<Rightarrow> player list" where
  "parse_fide_text_file lines min_rating existing_fide_ids =
     players (parse_summary lines min_rating existing_fide_ids)"

section \<open>The store\<close>

text \<open>
  The two tables live in an external database that the script reaches through a client
  object \<^verbatim>\<open>conn\<close>. A table is the list of its rows in insertion order. The connection
  also records the write requests it has executed, so that the order of the writes of a
  run can be stated. Creating the client (\<^verbatim>\<open>get_db_connection\<close>) is taken as done; a request
  sent through it may still be rejected.
\<close>

datatype error = FileNotFoundError | ValueError | APIError | EOFError

record player_row =
  pr_fide_id :: string
  pr_name :: string
  pr_birth_year :: "int option"

record ranking_row =
  rk_fide_id :: string
  rk_rank :: "int option"
  rk_rating :: int
  rk_federation :: string
  rk_scraped_date :: string
  rk_scraped_at :: string
  rk_data_source :: string

datatype request =
    Select_fide_ids
  | Upsert_players "player_row list"
  | Upsert_rankings "ranking_row list"

record conn =
  players_table :: "player_row list"
  rankings_table :: "ranking_row list"
  executed :: "request list"

text \<open>
  What the script does not decide is a parameter: the content of the files it opens, the
  library's date parser (\<open>None\<close> where \<^verbatim>\<open>strptime\<close> raises \<^verbatim>\<open>ValueError\<close>, otherwise
  the pair of \<^verbatim>\<open>date().isoformat()\<close> and \<^verbatim>\<open>isoformat()\<close>), and whether the store accepts a
  request in a given state or raises.
\<close>

record env =
  files :: "string \<Rightarrow> string list option"
  strptime :: "string \<Rightarrow> (string \<times> string) option"
  accepts :: "conn \<Rightarrow> request \<Rightarrow> bool"

text \<open>
  Modelled from the spec: the store's \<^verbatim>\<open>upsert(..., on_conflict='fide_id')\<close>, for one row
  (the database and its client are not part of the source). Specification 4.3:
  insert-or-update Player rows keyed by \<open>fide_id\<close>; on conflict, overwrite \<open>name\<close> and
  \<open>birth_year\<close>.
\<close>

definition upsert_player :: "player_row \<Rightarrow> player_row list \<Rightarrow> player_row list" where
  "upsert_player r tbl =
     (if pr_fide_id r \<in> pr_fide_id ` set tbl
      then map (\<lambda>x. if pr_fide_id x = pr_fide_id r
                      then x\<lparr>pr_name := pr_name r, pr_birth_year := pr_birth_year r\<rparr>
                      else x) tbl
      else tbl @ [r])"

definition ranking_key :: "ranking_row \<Rightarrow> string \<times> string" where
  "ranking_key r = (rk_fide_id r, rk_scraped_date r)"

text \<open>
  Modelled from the spec: the store's
  \<^verbatim>\<open>upsert(..., on_conflict='fide_id,scraped_date', ignore_duplicates=True)\<close>, for one row
  (the database and its client are not part of the source). Specification 4.3: insert
  RankingObservation rows keyed by \<open>(fide_id, scraped_date)\<close>; on conflict, the existing row
  is left untouched.
\<close>

definition insert_ranking :: "ranking_row \<Rightarrow> ranking_row list \<Rightarrow> ranking_row list" where
  "insert_ranking r tbl =
     (if ranking_key r \<in> ranking_key ` set tbl then tbl else tbl @ [r])"

fun apply_request :: "request \<Rightarrow> conn \<Rightarrow> conn" where
  "apply_request Select_fide_ids c = c"
| "apply_request (Upsert_players rows) c =
     c\<lparr>players_table := fold upsert_player rows (players_table c),
       executed := executed c @ [Upsert_players rows]\<rparr>"
| "apply_request (Upsert_rankings rows) c =
     c\<lparr>rankings_table := fold insert_ranking rows (rankings_table c),
       executed := executed c @ [Upsert_rankings rows]\<rparr>"

definition execute :: "env \<Rightarrow> request \<Rightarrow> conn \<Rightarrow> (error + unit) \<times> conn" where
  \<comment> \<open>\<^verbatim>\<open>.execute()\<close>: a rejected request raises and changes nothing\<close>
  "execute e rq c =
     (if accepts e c rq then (Inr (), apply_request rq c) else (Inl APIError, c))"

definition get_existing_fide_ids :: "env \<Rightarrow> conn \<Rightarrow> error + string set" where
  "get_existing_fide_ids e c =
     (if accepts e c Select_fide_ids then Inr (pr_fide_id ` set (players_table c))
      else Inl APIError)"

section \<open>One seed run\<close>

definition batch_size :: nat where
  "batch_size = 100"

definition player_data :: "player list \<Rightarrow> request" where
  "player_data batch =
     Upsert_players
       (map (\<lambda>p. \<lparr>pr_fide_id = fide_id p, pr_name = name p, pr_birth_year = birth_year p\<rparr>)
          batch)"

definition ranking_data :: "string \<Rightarrow> string \<Rightarrow> player list \<Rightarrow> request" where
  "ranking_data scraped_date scraped_at batch =
     Upsert_rankings
       (map (\<lambda>p. \<lparr>rk_fide_id = fide_id p, rk_rank = rank p, rk_rating = rating p,
                   rk_federation = federation p, rk_scraped_date = scraped_date,
                   rk_scraped_at = scraped_at, rk_data_source = ''historical''\<rparr>)
          batch)"

text \<open>
  Both loops of \<^verbatim>\<open>seed_database\<close> have the shape
  \<^verbatim>\<open>for i in range(0, len(players), batch_size): batch = players[i:i + batch_size]; ...\<close>
  and differ in the request they build from the batch. An exception leaves the loop.
\<close>

function upsert_batches ::
  "env \<Rightarrow> (player list \<Rightarrow> request) \<Rightarrow> nat \<Rightarrow> player list \<Rightarrow> conn \<Rightarrow> (error + unit) \<times> conn"
where
  "upsert_batches e mk i ps c =
     (if i < length ps then
        (case execute e (mk (slice i (i + batch_size) ps)) c of
           (Inl err, c') \<Rightarrow> (Inl err, c')
         | (Inr _, c') \<Rightarrow> upsert_batches e mk (i + batch_size) ps c')
      else (Inr (), c))"
  by pat_completeness auto
termination
  by (relation "measure (\<lambda>(e, mk, i, ps, c). length ps - i)") (auto simp: batch_size_def)

definition seed_database ::
  "env \<Rightarrow> string \<Rightarrow> string \<Rightarrow> int \<Rightarrow> conn \<Rightarrow> (error + unit) \<times> conn"
where
  "seed_database e filepath data_date min_rating c =
     (case get_existing_fide_ids e c of
        Inl err \<Rightarrow> (Inl err, c)
      | Inr existing_fide_ids \<Rightarrow>
          (case files e filepath of
             None \<Rightarrow> (Inl FileNotFoundError, c)
           | Some lines \<Rightarrow>
               let ps = parse_fide_text_file lines min_rating existing_fide_ids
               in if ps = [] then (Inr (), c)
                  else
                    (case strptime e data_date of
                       None \<Rightarrow> (Inl ValueError, c)
                     | Some (scraped_date, scraped_at) \<Rightarrow>
                         (case upsert_batches e player_data 0 ps c of
                            (Inl err, c') \<Rightarrow> (Inl err, c')
                          | (Inr _, c') \<Rightarrow>
                              upsert_batches e (ranking_data scraped_date scraped_at) 0 ps c'))))"

section \<open>Several files\<close>

text \<open>
  \<^verbatim>\<open>seed_multiple_files\<close> also talks to the operator: it announces each file it starts on
  and, after a failed run, reads an answer from the console. The world it runs in is the
  store, the lines still to be read from the console, and the list of the pairs announced.
\<close>

record world =
  conn :: conn
  stdin :: "string list"
  processed :: "(string \<times> string) list"

fun seed_files :: "env \<Rightarrow> int \<Rightarrow> (string \<times> string) list \<Rightarrow> world \<Rightarrow> (error + unit) \<times> world" where
  "seed_files e min_rating [] w = (Inr (), w)"
| "seed_files e min_rating ((filepath, data_date) # rest) w =
     (let w1 = w\<lparr>processed := processed w @ [(filepath, data_date)]\<rparr>
      in case seed_database e filepath data_date min_rating (conn w1) of
           (Inr _, c') \<Rightarrow> seed_files e min_rating rest (w1\<lparr>conn := c'\<rparr>)
         | (Inl err, c') \<Rightarrow>
             (case stdin w1 of
                [] \<Rightarrow> (Inl EOFError, w1\<lparr>conn := c'\<rparr>)
              | response # later \<Rightarrow>
                  if lower response \<noteq> ''y'' then (Inr (), w1\<lparr>conn := c', stdin := later\<rparr>)
                  else seed_files e min_rating rest (w1\<lparr>conn := c', stdin := later\<rparr>)))"

definition seed_multiple_files ::
  "env \<Rightarrow> (string \<times> string) list \<Rightarrow> int \<Rightarrow> world \<Rightarrow> (error + unit) \<times> world"
where
  "seed_multiple_files e file_list min_rating w =
     (let file_list_sorted = sort_key snd file_list
      in seed_files e min_rating file_list_sorted w)"

section \<open>Notions used to state the properties\<close>

text \<open>
  The admission contract in the words of the specification (4.2): a record is admitted if
  its rating is at least \<open>min_rating\<close> or its \<open>fide_id\<close> is among the existing identities.
\<close>

definition spec_admit :: "player \<Rightarrow> int \<Rightarrow> string set \<Rightarrow> bool" where
  "spec_admit record min_rating existing_ids =
     (rating record \<ge> min_rating \<or> fide_id record \<in> existing_ids)"

abbreviation init_state :: parse_state where
  "init_state \<equiv> \<lparr>players = [], skipped_invalid = 0, skipped_low_rating = 0\<rparr>"

text \<open>
  The records of a file before admission are what the parser returns when the snapshot of
  existing identities contains every identifier, so that line 90 never skips.
\<close>

definition line_records :: "string \<Rightarrow> player list" where
  "line_records line = players (parse_line 0 UNIV line init_state)"

definition parsed_records :: "string list \<Rightarrow> player list" where
  "parsed_records lines = parse_fide_text_file lines 0 UNIV"

text \<open>A data line with the six fields laid out at the offsets of the format, for examples.\<close>

definition fixed_width :: "string \<Rightarrow> string \<Rightarrow> string \<Rightarrow> string \<Rightarrow> string \<Rightarrow> string \<Rightarrow> string" where
  "fixed_width fid nm fed sx rt bd =
     (let pad = (\<lambda>n s. s @ replicate (n - length s) CHR '' '')
      in pad 15 fid @ pad 61 nm @ pad 3 fed @ pad 1 sx @ replicate 33 CHR '' '' @ pad 4 rt
         @ replicate 9 CHR '' '' @ bd @ ''\<newline>'')"

definition header :: string where
  "header = ''ID Number      Name''"

text \<open>
  The batches of a list in the words of the specification (4.3): consecutive chunks of a
  fixed size, the last one possibly smaller.
\<close>

function chunks :: "nat \<Rightarrow> 'a list \<Rightarrow> 'a list list" where
  "chunks n xs = (if n = 0 \<or> xs = [] then [] else take n xs # chunks n (drop n xs))"
  by pat_completeness auto
termination
  by (relation "measure (\<lambda>(n, xs). length xs)") auto

text \<open>Requests sent one after the other; the first one the store rejects ends the sequence.\<close>

fun run_requests :: "env \<Rightarrow> request list \<Rightarrow> conn \<Rightarrow> (error + unit) \<times> conn" where
  "run_requests e [] c = (Inr (), c)"
| "run_requests e (rq # rqs) c =
     (case execute e rq c of
        (Inl err, c') \<Rightarrow> (Inl err, c')
      | (Inr _, c') \<Rightarrow> run_requests e rqs c')"

text \<open>The requests of one seed run: the identity pass, then the observation pass.\<close>

definition identity_pass :: "player list \<Rightarrow> request list" where
  "identity_pass ps = map player_data (chunks batch_size ps)"

definition observation_pass :: "string \<Rightarrow> string \<Rightarrow> player list \<Rightarrow> request list" where
  "observation_pass scraped_date scraped_at ps =
     map (ranking_data scraped_date scraped_at) (chunks batch_size ps)"

definition seed_requests :: "string \<Rightarrow> string \<Rightarrow> player list \<Rightarrow> request list" where
  "seed_requests scraped_date scraped_at ps =
     identity_pass ps @ observation_pass scraped_date scraped_at ps"

fun player_ids_of :: "request \<Rightarrow> string set" where
  "player_ids_of (Upsert_players rows) = pr_fide_id ` set rows"
| "player_ids_of _ = {}"

fun ranking_ids_of :: "request \<Rightarrow> string set" where
  "ranking_ids_of (Upsert_rankings rows) = rk_fide_id ` set rows"
| "ranking_ids_of _ = {}"

fun is_observation_write :: "request \<Rightarrow> bool" where
  "is_observation_write (Upsert_rankings rows) = True"
| "is_observation_write _ = False"

text \<open>The invariants of the data model (specification, section 3).\<close>

definition rankings_unique :: "conn \<Rightarrow> bool" where
  "rankings_unique c = distinct (map ranking_key (rankings_table c))"

definition references_ok :: "conn \<Rightarrow> bool" where
  "references_ok c =
     (rk_fide_id ` set (rankings_table c) \<subseteq> pr_fide_id ` set (players_table c))"

definition empty_store :: conn where
  "empty_store = \<lparr>players_table = [], rankings_table = [], executed = []\<rparr>"

text \<open>An environment for the examples: a date parser that takes the ten characters of
  \<^verbatim>\<open>YYYY-MM-DD\<close> as they are, and files given by a table.\<close>

definition example_strptime :: "string \<Rightarrow> (string \<times> string) option" where
  "example_strptime d = (if length d = 10 then Some (d, d @ ''T00:00:00'') else None)"

definition example_env :: "(string \<times> string list) list \<Rightarrow> (conn \<Rightarrow> request \<Rightarrow> bool) \<Rightarrow> env" where
  "example_env fs acc = \<lparr>files = map_of fs, strptime = example_strptime, accepts = acc\<rparr>"


definition ranking_row_of :: "string \<Rightarrow> string \<Rightarrow> player \<Rightarrow> ranking_row" where
  "ranking_row_of scraped_date scraped_at p =
     \<lparr>rk_fide_id = fide_id p, rk_rank = rank p, rk_rating = rating p,
      rk_federation = federation p, rk_scraped_date = scraped_date,
      rk_scraped_at = scraped_at, rk_data_source = ''historical''\<rparr>"














text \<open>
  A calendar date written as \<^verbatim>\<open>strftime('%Y-%m-%d')\<close> writes it, for years below 10000:
  the form of the dates the script is given.
\<close>

definition two_digits :: "nat \<Rightarrow> string" where
  "two_digits n = [char_of (48 + n div 10), char_of (48 + n mod 10)]"

definition iso_date :: "nat \<Rightarrow> nat \<Rightarrow> nat \<Rightarrow> string" where
  "iso_date y m d =
     two_digits (y div 100) @ two_digits (y mod 100) @ ''-'' @ two_digits m @ ''-''
       @ two_digits d"

text \<open>
  The library's \<^verbatim>\<open>datetime.strptime(s, '%Y-%m-%d')\<close>, which both the batch prompt and
  \<^verbatim>\<open>seed_database\<close> call on a date. It reads four digits, a hyphen, a month, a hyphen and
  a day, and nothing may follow. A month is \<^verbatim>\<open>10\<close>..\<^verbatim>\<open>12\<close>, \<^verbatim>\<open>01\<close>..\<^verbatim>\<open>09\<close> or a single
  \<^verbatim>\<open>1\<close>..\<^verbatim>\<open>9\<close>; a day is \<^verbatim>\<open>30\<close>, \<^verbatim>\<open>31\<close>, \<^verbatim>\<open>10\<close>..\<^verbatim>\<open>29\<close>, \<^verbatim>\<open>01\<close>..\<^verbatim>\<open>09\<close>, a single
  \<^verbatim>\<open>1\<close>..\<^verbatim>\<open>9\<close>, or a space and \<^verbatim>\<open>1\<close>..\<^verbatim>\<open>9\<close>: the zero in front of a one-digit month or day
  is optional. The three numbers must be a date of the calendar, with a year from 1 on.
  \<open>None\<close> is the \<^verbatim>\<open>ValueError\<close>.
\<close>

definition digit_nat :: "char \<Rightarrow> nat" where
  "digit_nat c = of_char c - 48"

definition nonzero_digit :: "char \<Rightarrow> bool" where
  "nonzero_digit c = (let n = (of_char c :: nat) in 49 \<le> n \<and> n \<le> 57)"

definition year_of :: "string \<Rightarrow> nat option" where
  "year_of s =
     (if length s = 4 \<and> list_all isdigit s
      then Some (foldl (\<lambda>acc c. 10 * acc + digit_nat c) 0 s) else None)"

fun month_of :: "string \<Rightarrow> nat option" where
  "month_of [a] = (if nonzero_digit a then Some (digit_nat a) else None)"
| "month_of [a, b] =
     (if a = CHR ''1'' \<and> (b = CHR ''0'' \<or> b = CHR ''1'' \<or> b = CHR ''2'')
      then Some (10 + digit_nat b)
      else if a = CHR ''0'' \<and> nonzero_digit b then Some (digit_nat b)
      else None)"
| "month_of s = None"

fun day_of :: "string \<Rightarrow> nat option" where
  "day_of [a] = (if nonzero_digit a then Some (digit_nat a) else None)"
| "day_of [a, b] =
     (if a = CHR ''3'' \<and> (b = CHR ''0'' \<or> b = CHR ''1'') then Some (30 + digit_nat b)
      else if (a = CHR ''1'' \<or> a = CHR ''2'') \<and> isdigit b
      then Some (10 * digit_nat a + digit_nat b)
      else if (a = CHR ''0'' \<or> a = CHR '' '') \<and> nonzero_digit b then Some (digit_nat b)
      else None)"
| "day_of s = None"

definition days_in_month :: "nat \<Rightarrow> nat \<Rightarrow> nat" where
  "days_in_month y m =
     (if m = 2 then
        (if y mod 400 = 0 then 29 else if y mod 100 = 0 then 28
         else if y mod 4 = 0 then 29 else 28)
      else if m = 4 \<or> m = 6 \<or> m = 9 \<or> m = 11 then 30 else 31)"

definition calendar_date :: "string \<Rightarrow> (nat \<times> nat \<times> nat) option" where
  \<comment> \<open>The year, month and day that \<^verbatim>\<open>strptime\<close> reads from \<open>s\<close>.\<close>
  "calendar_date s =
     (case drop 4 s of
        [] \<Rightarrow> None
      | c # s' \<Rightarrow>
          if c = CHR ''-'' then
            (case dropWhile (\<lambda>x. x \<noteq> CHR ''-'') s' of
               [] \<Rightarrow> None
             | c' # ds \<Rightarrow>
                 (case (year_of (take 4 s), month_of (takeWhile (\<lambda>x. x \<noteq> CHR ''-'') s'),
                        day_of ds) of
                    (Some y, Some m, Some d) \<Rightarrow>
                      if 1 \<le> y \<and> d \<le> days_in_month y m then Some (y, m, d) else None
                  | _ \<Rightarrow> None))
          else None)"

definition py_strptime :: "string \<Rightarrow> (string \<times> string) option" where
  \<comment> \<open>The pair of \<^verbatim>\<open>date().isoformat()\<close> and \<^verbatim>\<open>isoformat()\<close> of the parsed date: both write
      the date zero-padded, whatever the input looked like.\<close>
  "py_strptime s =
     (case calendar_date s of
        None \<Rightarrow> None
      | Some (y, m, d) \<Rightarrow> Some (iso_date y m d, iso_date y m d @ ''T00:00:00''))"

definition python_env :: "(string \<times> string list) list \<Rightarrow> (conn \<Rightarrow> request \<Rightarrow> bool) \<Rightarrow> env" where
  "python_env fs acc = \<lparr>files = map_of fs, strptime = py_strptime, accepts = acc\<rparr>"

text \<open>The store after the run of \<^verbatim>\<open>seed_database\<close> for one pair of the list.\<close>

definition run_one :: "env \<Rightarrow> int \<Rightarrow> string \<times> string \<Rightarrow> conn \<Rightarrow> conn" where
  "run_one e min_rating x c = snd (seed_database e (fst x) (snd x) min_rating c)"

text \<open>
  Two monthly lists with the same player: rated 2499 in September, below the threshold of
  2500, and 2839 in October.
\<close>

definition sep_file :: "string list" where
  "sep_file = [header, fixed_width ''1503014'' ''Carlsen, Magnus'' ''NOR'' ''M'' ''2499'' ''1990'']"

definition oct_file :: "string list" where
  "oct_file = [header, fixed_width ''1503014'' ''Carlsen, Magnus'' ''NOR'' ''M'' ''2839'' ''1990'']"

definition unpadded_env :: env where
  "unpadded_env = python_env [(''sep.txt'', sep_file), (''oct.txt'', oct_file)] (\<lambda>c rq. True)"

section \<open>Properties of the parser\<close>

subsection \<open>One line at a time\<close>

lemma parse_line_players:
  "players (parse_line mr ex l st) =
     players st @ filter (\<lambda>p. spec_admit p mr ex) (line_records l)"
  by (simp add: parse_line_def line_records_def spec_admit_def Let_def split: option.split)

lemma parse_line_low:
  "skipped_low_rating (parse_line mr ex l st) =
     skipped_low_rating st + length (filter (\<lambda>p. \<not> spec_admit p mr ex) (line_records l))"
  by (simp add: parse_line_def line_records_def spec_admit_def Let_def split: option.split)




subsection \<open>The loop over the data lines\<close>

lemma fold_parse_line_players:
  "players (fold (parse_line mr ex) ls st) =
     players st @ filter (\<lambda>p. spec_admit p mr ex) (concat (map line_records ls))"
  by (induction ls arbitrary: st) (simp_all add: parse_line_players)

lemma fold_parse_line_low:
  "skipped_low_rating (fold (parse_line mr ex) ls st) =
     skipped_low_rating st
       + length (filter (\<lambda>p. \<not> spec_admit p mr ex) (concat (map line_records ls)))"
  by (induction ls arbitrary: st) (simp_all add: parse_line_low)


lemma spec_admit_UNIV: "spec_admit p mr UNIV"
  by (simp add: spec_admit_def)

lemma parsed_records_concat: "parsed_records lines = concat (map line_records (data_lines lines))"
  by (simp add: parsed_records_def parse_fide_text_file_def parse_summary_def
      fold_parse_line_players spec_admit_UNIV)

lemma parse_fide_text_file_filter:
  "parse_fide_text_file lines mr ex = filter (\<lambda>p. spec_admit p mr ex) (parsed_records lines)"
  by (simp add: parsed_records_concat parse_fide_text_file_def parse_summary_def
      fold_parse_line_players)

subsection \<open>Admission\<close>

text \<open>
  Claim C1. Of the records parsed from a file, the parser returns exactly those whose rating
  is at least \<open>min_rating\<close> or whose \<open>fide_id\<close> is in the snapshot of existing identities, in
  file order; every other parsed record is dropped and counted in \<open>skipped_low_rating\<close>.
\<close>

theorem admission_filter:
  "parse_fide_text_file lines min_rating existing_ids =
     filter (\<lambda>p. spec_admit p min_rating existing_ids) (parsed_records lines)
   \<and> skipped_low_rating (parse_summary lines min_rating existing_ids) =
     length (filter (\<lambda>p. \<not> spec_admit p min_rating existing_ids) (parsed_records lines))"
  by (simp add: parsed_records_concat parse_fide_text_file_def parse_summary_def
      fold_parse_line_players fold_parse_line_low)

text \<open>
  The boundary at \<open>min_rating = 2500\<close>: a record rated 2499 is dropped and counted when its
  identifier is unknown, and admitted when the snapshot holds its identifier.
\<close>

theorem admission_filter_witness:
  "parse_fide_text_file
     [header, fixed_width ''5000017'' ''Short, Nigel D'' ''ENG'' ''M'' ''2499'' ''1965'']
     2500 {} = []
   \<and> skipped_low_rating
       (parse_summary
         [header, fixed_width ''5000017'' ''Short, Nigel D'' ''ENG'' ''M'' ''2499'' ''1965'']
         2500 {}) = 1
   \<and> parse_fide_text_file
       [header, fixed_width ''5000017'' ''Short, Nigel D'' ''ENG'' ''M'' ''2499'' ''1965'']
       2500 {''5000017''} =
     [\<lparr>fide_id = ''5000017'', name = ''Short, Nigel D'', federation = ''ENG'', rating = 2499,
       birth_year = Some 1965, sex = ''M'', title = None, rank = None\<rparr>]"
proof -
  let ?lines = "[header, fixed_width ''5000017'' ''Short, Nigel D'' ''ENG'' ''M'' ''2499'' ''1965'']"
  have pr: "parsed_records ?lines =
    [\<lparr>fide_id = ''5000017'', name = ''Short, Nigel D'', federation = ''ENG'', rating = 2499,
      birth_year = Some 1965, sex = ''M'', title = None, rank = None\<rparr>]"
    by code_simp
  show ?thesis
    using admission_filter [of ?lines 2500 "{}"] admission_filter [of ?lines 2500 "{''5000017''}"]
    by (simp add: pr spec_admit_def)
qed

subsection \<open>Short lines\<close>





subsection \<open>The birth year\<close>

lemma digit_value_bounds: "isdigit c \<Longrightarrow> 0 \<le> digit_value c \<and> digit_value c \<le> 9"
  by (auto simp: isdigit_def digit_value_def Let_def)

lemma int_digits_bounds:
  "int_digits acc cs = Some y \<Longrightarrow> 0 \<le> acc \<Longrightarrow> 0 \<le> y \<and> y < (acc + 1) * 10 ^ length cs"
proof (induction acc cs rule: int_digits.induct)
  case (1 acc)
  then show ?case by simp
next
  case (2 acc c cs)
  show ?case
  proof (cases "isdigit c")
    case True
    with "2.prems" have run: "int_digits (10 * acc + digit_value c) cs = Some y" by simp
    have nn: "0 \<le> 10 * acc + digit_value c"
      using True "2.prems"(2) digit_value_bounds [of c] by simp
    from "2.IH"(1) [OF True run nn]
    have "0 \<le> y" and lt: "y < (10 * acc + digit_value c + 1) * 10 ^ length cs" by simp_all
    have "(10 * acc + digit_value c + 1) * 10 ^ length cs \<le> (10 * acc + 10) * 10 ^ length cs"
      using digit_value_bounds [OF True] by (intro mult_right_mono) simp_all
    with lt have "y < (10 * acc + 10) * 10 ^ length cs" by linarith
    also have "\<dots> = (acc + 1) * 10 ^ length (c # cs)" by (simp add: algebra_simps)
    finally show ?thesis using \<open>0 \<le> y\<close> by simp
  next
    case False
    with "2.prems" obtain d ds where us: "c = CHR ''_''" and cs: "cs = d # ds" and dd: "isdigit d"
      and run: "int_digits (10 * acc + digit_value d) ds = Some y"
      by (auto split: if_splits list.splits)
    have nn: "0 \<le> 10 * acc + digit_value d"
      using dd "2.prems"(2) digit_value_bounds [of d] by simp
    from "2.IH"(2) [OF False us cs dd run nn]
    have "0 \<le> y" and lt: "y < (10 * acc + digit_value d + 1) * 10 ^ length ds" by simp_all
    have "(10 * acc + digit_value d + 1) * 10 ^ length ds \<le> (10 * acc + 10) * 10 ^ length ds"
      using digit_value_bounds [OF dd] by (intro mult_right_mono) simp_all
    also have "\<dots> \<le> (10 * acc + 10) * (10 * 10 ^ length ds)"
      using "2.prems"(2) by (intro mult_left_mono) simp_all
    finally have "y < (10 * acc + 10) * (10 * 10 ^ length ds)" using lt by linarith
    also have "\<dots> = (acc + 1) * 10 ^ length (c # cs)" using cs by (simp add: algebra_simps)
    finally show ?thesis using \<open>0 \<le> y\<close> by simp
  qed
qed

lemma int_unsigned_bounds: "int_unsigned s = Some y \<Longrightarrow> 0 \<le> y \<and> y < 10 ^ length s"
proof -
  assume a: "int_unsigned s = Some y"
  then obtain d ds where s: "s = d # ds" and dd: "isdigit d"
    and run: "int_digits (digit_value d) ds = Some y"
    by (auto simp: int_unsigned_def split: list.splits if_splits)
  from int_digits_bounds [OF run] digit_value_bounds [OF dd]
  have "0 \<le> y" and lt: "y < (digit_value d + 1) * 10 ^ length ds" by simp_all
  have "(digit_value d + 1) * 10 ^ length ds \<le> 10 * 10 ^ length ds"
    using digit_value_bounds [OF dd] by (intro mult_right_mono) simp_all
  with lt have "y < 10 * 10 ^ length ds" by linarith
  with \<open>0 \<le> y\<close> s show ?thesis by simp
qed

lemma py_int_upper: "py_int s = Some y \<Longrightarrow> y < 10 ^ length s"
proof -
  assume a: "py_int s = Some y"
  then obtain c cs where s: "s = c # cs" by (cases s) (auto simp: py_int_def)
  consider (neg) v where "c = CHR ''-''" "int_unsigned cs = Some v" "y = - v"
    | (pos) "c = CHR ''+''" "int_unsigned cs = Some y"
    | (plain) "int_unsigned s = Some y"
    using a s by (auto simp: py_int_def split: if_splits)
  then show ?thesis
  proof cases
    case neg
    from int_unsigned_bounds [OF neg(2)] have "y \<le> 0" using neg(3) by simp
    moreover have "(0::int) < 10 ^ length s" by simp
    ultimately show ?thesis by linarith
  next
    case pos
    from int_unsigned_bounds [OF pos(2)] have "y < 10 ^ length cs" by simp
    also have "\<dots> \<le> (10::int) ^ length s" using s by simp
    finally show ?thesis .
  next
    case plain
    then show ?thesis using int_unsigned_bounds by simp
  qed
qed

lemma py_int_short: "length s < 4 \<Longrightarrow> py_int s = Some y \<Longrightarrow> y < 1900"
proof -
  assume len: "length s < 4" and a: "py_int s = Some y"
  have "y < 10 ^ length s" using py_int_upper [OF a] .
  also have "\<dots> \<le> (10::int) ^ 3" using len by (intro power_increasing) simp_all
  finally show ?thesis by simp
qed

text \<open>
  The test \<^verbatim>\<open>len(birthday_str) >= 4\<close> changes nothing: fewer than four characters cannot
  spell a year from 1900 on.
\<close>

lemma parse_birth_year_eq:
  "parse_birth_year b =
     (case py_int (slice 0 4 b) of
        Some y \<Rightarrow> if 1900 \<le> y \<and> y \<le> 2024 then Some y else None
      | None \<Rightarrow> None)"
proof (cases "length b \<ge> 4")
  case True
  then have "b \<noteq> []" by auto
  with True show ?thesis
    by (auto simp: parse_birth_year_def split: option.splits)
next
  case False
  then have sl: "slice 0 4 b = b" by (simp add: slice_def)
  have "\<And>y. py_int b = Some y \<Longrightarrow> y < 1900"
    using False py_int_short [of b] by simp
  with False sl show ?thesis
    by (auto simp: parse_birth_year_def split: option.splits)
qed

lemma parse_birth_year_range:
  "parse_birth_year b = Some y \<Longrightarrow> 1900 \<le> y \<and> y \<le> 2024"
  by (auto simp: parse_birth_year_def split: if_splits option.splits)

lemma line_records_birth_year:
  "p \<in> set (line_records l) \<Longrightarrow> birth_year p = parse_birth_year (strip (slice 126 130 l))"
  by (auto simp: line_records_def parse_line_def Let_def split: if_splits option.splits)

lemma parse_line_admitted:
  assumes "length line \<ge> 123"
    and "strip (slice 0 15 line) \<noteq> []" and "strip (slice 15 76 line) \<noteq> []"
    and "py_int (strip (slice 113 117 line)) = Some r"
    and "r \<ge> mr \<or> strip (slice 0 15 line) \<in> ex"
  shows "parse_line mr ex line st =
         st\<lparr>players := players st @
            [\<lparr>fide_id = strip (slice 0 15 line), name = strip (slice 15 76 line),
              federation = strip (slice 76 79 line), rating = r,
              birth_year = parse_birth_year (strip (slice 126 130 line)),
              sex = strip (slice 79 80 line), title = None, rank = None\<rparr>]\<rparr>"
proof -
  from assms(4) have "strip (slice 113 117 line) \<noteq> []"
    by (auto simp: py_int_def)
  with assms show ?thesis
    by (auto simp: parse_line_def Let_def)
qed

text \<open>
  Claim C8. Every record the parser returns has a \<open>birth_year\<close> that is null or lies in
  [1900, 2024]. A line that passes validation and admission yields its record whatever
  stands in the birth-date columns [126,130): the \<open>birth_year\<close> of that record is the
  integer read from the first four characters of the stripped substring when that integer
  lies in the bound, and null when the substring is empty, is not an integer, or is out of
  the bound.
\<close>

theorem birth_year_sanity:
  "(\<forall>p \<in> set (parse_fide_text_file lines min_rating existing_ids).
      birth_year p = None \<or> (\<exists>y. birth_year p = Some y \<and> 1900 \<le> y \<and> y \<le> 2024))
   \<and> (length line \<ge> 123 \<and> strip (slice 0 15 line) \<noteq> [] \<and> strip (slice 15 76 line) \<noteq> []
        \<and> py_int (strip (slice 113 117 line)) = Some r
        \<and> (r \<ge> min_rating \<or> strip (slice 0 15 line) \<in> existing_ids)
      \<longrightarrow> (\<exists>p. parse_line min_rating existing_ids line st = st\<lparr>players := players st @ [p]\<rparr>
               \<and> birth_year p =
                   (case py_int (slice 0 4 (strip (slice 126 130 line))) of
                      Some y \<Rightarrow> if 1900 \<le> y \<and> y \<le> 2024 then Some y else None
                    | None \<Rightarrow> None)))"
proof (intro conjI ballI impI)
  fix p
  assume "p \<in> set (parse_fide_text_file lines min_rating existing_ids)"
  then have "p \<in> set (parsed_records lines)"
    by (simp add: parse_fide_text_file_filter)
  then obtain l where "p \<in> set (line_records l)"
    by (auto simp: parsed_records_concat)
  then have b: "birth_year p = parse_birth_year (strip (slice 126 130 l))"
    by (rule line_records_birth_year)
  show "birth_year p = None \<or> (\<exists>y. birth_year p = Some y \<and> 1900 \<le> y \<and> y \<le> 2024)"
  proof (cases "birth_year p")
    case None
    then show ?thesis by simp
  next
    case (Some y)
    with b have "parse_birth_year (strip (slice 126 130 l)) = Some y" by simp
    then have "1900 \<le> y \<and> y \<le> 2024" by (rule parse_birth_year_range)
    with Some show ?thesis by simp
  qed
next
  assume h: "length line \<ge> 123 \<and> strip (slice 0 15 line) \<noteq> [] \<and> strip (slice 15 76 line) \<noteq> []
        \<and> py_int (strip (slice 113 117 line)) = Some r
        \<and> (r \<ge> min_rating \<or> strip (slice 0 15 line) \<in> existing_ids)"
  then have "parse_line min_rating existing_ids line st =
         st\<lparr>players := players st @
            [\<lparr>fide_id = strip (slice 0 15 line), name = strip (slice 15 76 line),
              federation = strip (slice 76 79 line), rating = r,
              birth_year = parse_birth_year (strip (slice 126 130 line)),
              sex = strip (slice 79 80 line), title = None, rank = None\<rparr>]\<rparr>"
    by (intro parse_line_admitted) simp_all
  then show "\<exists>p. parse_line min_rating existing_ids line st = st\<lparr>players := players st @ [p]\<rparr>
               \<and> birth_year p =
                   (case py_int (slice 0 4 (strip (slice 126 130 line))) of
                      Some y \<Rightarrow> if 1900 \<le> y \<and> y \<le> 2024 then Some y else None
                    | None \<Rightarrow> None)"
    using parse_birth_year_eq [of "strip (slice 126 130 line)"] by auto
qed

text \<open>
  A line whose birth-date columns hold \<open>2025\<close>, a year beyond the bound: the record is
  produced with a null \<open>birth_year\<close>.
\<close>

theorem birth_year_sanity_witness:
  "(\<exists>p. parse_line 2500 {}
          (fixed_width ''1503014'' ''Carlsen, Magnus'' ''NOR'' ''M'' ''2839'' ''2025'') init_state =
        init_state\<lparr>players := [p]\<rparr> \<and> birth_year p = None)
   \<and> map birth_year
       (parse_fide_text_file
          [header, fixed_width ''1503014'' ''Carlsen, Magnus'' ''NOR'' ''M'' ''2839'' ''1990'']
          2500 {}) = [Some 1990]"
proof -
  let ?line = "fixed_width ''1503014'' ''Carlsen, Magnus'' ''NOR'' ''M'' ''2839'' ''2025''"
  let ?lines = "[header, fixed_width ''1503014'' ''Carlsen, Magnus'' ''NOR'' ''M'' ''2839'' ''1990'']"
  have h: "length ?line \<ge> 123 \<and> strip (slice 0 15 ?line) \<noteq> [] \<and> strip (slice 15 76 ?line) \<noteq> []
        \<and> py_int (strip (slice 113 117 ?line)) = Some 2839
        \<and> (2839 \<ge> (2500::int) \<or> strip (slice 0 15 ?line) \<in> {})"
    by code_simp
  have b: "py_int (slice 0 4 (strip (slice 126 130 ?line))) = Some 2025"
    by code_simp
  have ps: "parse_fide_text_file ?lines 2500 {} =
    [\<lparr>fide_id = ''1503014'', name = ''Carlsen, Magnus'', federation = ''NOR'',
      rating = 2839, birth_year = Some 1990, sex = ''M'', title = None, rank = None\<rparr>]"
    by code_simp
  show ?thesis
    using birth_year_sanity [of ?lines 2500 "{}" ?line 2839 init_state] h b
    by (simp add: ps)
qed

section \<open>Properties of a seed run\<close>

subsection \<open>The loops send the chunks in order\<close>

declare chunks.simps [simp del]
declare upsert_batches.simps [simp del]

lemma chunks_Nil [simp]: "chunks n [] = []"
  by (simp add: chunks.simps)

lemma upsert_batches_chunks:
  "upsert_batches e mk i ps c = run_requests e (map mk (chunks batch_size (drop i ps))) c"
proof (induction e mk i ps c rule: upsert_batches.induct)
  case (1 e mk i ps c)
  show ?case
  proof (cases "i < length ps")
    case True
    then have ne: "drop i ps \<noteq> []" by simp
    have ch: "chunks batch_size (drop i ps) =
        slice i (i + batch_size) ps # chunks batch_size (drop (i + batch_size) ps)"
      using ne by (subst chunks.simps) (simp add: batch_size_def slice_def add.commute)
    show ?thesis
    proof (cases "execute e (mk (slice i (i + batch_size) ps)) c")
      case (Pair res c')
      show ?thesis
      proof (cases res)
        case (Inl err)
        with Pair True ch show ?thesis
          by (subst upsert_batches.simps) simp
      next
        case (Inr u)
        with Pair True ch "1.IH" [OF True Pair [symmetric] Inr] show ?thesis
          by (subst upsert_batches.simps) simp
      qed
    qed
  next
    case False
    then show ?thesis
      by (subst upsert_batches.simps) simp
  qed
qed

lemma run_requests_append:
  "run_requests e (a @ b) c =
     (case run_requests e a c of
        (Inl err, c') \<Rightarrow> (Inl err, c')
      | (Inr u, c') \<Rightarrow> run_requests e b c')"
  by (induction a arbitrary: c) (auto split: prod.splits sum.splits)

lemma run_requests_prefix:
  "\<exists>k \<le> length rqs.
     snd (run_requests e rqs c) = fold apply_request (take k rqs) c
     \<and> (k = length rqs \<and> fst (run_requests e rqs c) = Inr ()
        \<or> k < length rqs \<and> fst (run_requests e rqs c) = Inl APIError
          \<and> \<not> accepts e (fold apply_request (take k rqs) c) (rqs ! k))"
proof (induction rqs arbitrary: c)
  case Nil
  show ?case by simp
next
  case (Cons rq rqs)
  show ?case
  proof (cases "accepts e c rq")
    case False
    then have "run_requests e (rq # rqs) c = (Inl APIError, c)"
      by (simp add: execute_def)
    with False show ?thesis
      by (intro exI [of _ 0]) simp
  next
    case True
    then have step: "run_requests e (rq # rqs) c = run_requests e rqs (apply_request rq c)"
      by (simp add: execute_def)
    from Cons.IH [of "apply_request rq c"] obtain k where k: "k \<le> length rqs"
      "snd (run_requests e rqs (apply_request rq c)) =
         fold apply_request (take k rqs) (apply_request rq c)"
      "k = length rqs \<and> fst (run_requests e rqs (apply_request rq c)) = Inr ()
        \<or> k < length rqs \<and> fst (run_requests e rqs (apply_request rq c)) = Inl APIError
          \<and> \<not> accepts e (fold apply_request (take k rqs) (apply_request rq c)) (rqs ! k)"
      by blast
    show ?thesis
      using k by (intro exI [of _ "Suc k"]) (auto simp: step simp del: run_requests.simps)
  qed
qed

lemma seed_database_writes:
  assumes "accepts e c Select_fide_ids" and "files e filepath = Some lines"
    and "strptime e data_date = Some (scraped_date, scraped_at)"
  shows "seed_database e filepath data_date min_rating c =
         run_requests e
           (seed_requests scraped_date scraped_at
             (parse_fide_text_file lines min_rating (pr_fide_id ` set (players_table c)))) c"
proof -
  let ?ps = "parse_fide_text_file lines min_rating (pr_fide_id ` set (players_table c))"
  show ?thesis
  proof (cases "?ps = []")
    case True
    with assms show ?thesis
      by (simp add: seed_database_def get_existing_fide_ids_def seed_requests_def
          identity_pass_def observation_pass_def)
  next
    case False
    with assms show ?thesis
      by (auto simp: seed_database_def get_existing_fide_ids_def seed_requests_def
          identity_pass_def observation_pass_def upsert_batches_chunks run_requests_append
          split: prod.splits sum.splits)
  qed
qed

lemma seed_database_no_writes:
  assumes "\<not> accepts e c Select_fide_ids \<or> files e filepath = None
     \<or> strptime e data_date = None"
  shows "snd (seed_database e filepath data_date min_rating c) = c"
  using assms
  by (auto simp: seed_database_def get_existing_fide_ids_def Let_def split: option.splits)

lemma concat_chunks: "0 < n \<Longrightarrow> concat (chunks n xs) = xs"
proof (induction n xs rule: chunks.induct)
  case (1 n xs)
  show ?case
  proof (cases "xs = []")
    case True
    then show ?thesis by simp
  next
    case False
    with "1.prems" have "chunks n xs = take n xs # chunks n (drop n xs)"
      by (subst chunks.simps) simp
    moreover have "concat (chunks n (drop n xs)) = drop n xs"
      using "1.IH" "1.prems" False by simp
    ultimately show ?thesis by simp
  qed
qed

lemma chunks_lengths:
  "ch \<in> set (chunks n xs) \<Longrightarrow> 0 < length ch \<and> length ch \<le> n"
proof (induction n xs rule: chunks.induct)
  case (1 n xs)
  show ?case
  proof (cases "n = 0 \<or> xs = []")
    case True
    with "1.prems" show ?thesis by (simp add: chunks.simps)
  next
    case False
    then have eq: "chunks n xs = take n xs # chunks n (drop n xs)"
      by (subst chunks.simps) simp
    from "1.prems" eq consider "ch = take n xs" | "ch \<in> set (chunks n (drop n xs))" by auto
    then show ?thesis
    proof cases
      case 1
      with False show ?thesis by (cases xs) auto
    next
      case 2
      with "1.IH" False show ?thesis by simp
    qed
  qed
qed

lemma chunks_full:
  "ch \<in> set (butlast (chunks n xs)) \<Longrightarrow> length ch = n"
proof (induction n xs rule: chunks.induct)
  case (1 n xs)
  show ?case
  proof (cases "n = 0 \<or> xs = []")
    case True
    with "1.prems" show ?thesis by (simp add: chunks.simps)
  next
    case False
    then have eq: "chunks n xs = take n xs # chunks n (drop n xs)"
      by (subst chunks.simps) simp
    show ?thesis
    proof (cases "chunks n (drop n xs) = []")
      case True
      with "1.prems" eq show ?thesis by simp
    next
      case ne: False
      then have "drop n xs \<noteq> []" by auto
      then have long: "n < length xs" by simp
      from "1.prems" eq ne consider "ch = take n xs" | "ch \<in> set (butlast (chunks n (drop n xs)))"
        by auto
      then show ?thesis
      proof cases
        case 1
        with long show ?thesis by simp
      next
        case 2
        with "1.IH" False show ?thesis by simp
      qed
    qed
  qed
qed

subsection \<open>The tables under the two kinds of write\<close>

lemma upsert_player_map_ids:
  "map pr_fide_id (upsert_player r tbl) =
     (if pr_fide_id r \<in> pr_fide_id ` set tbl then map pr_fide_id tbl
      else map pr_fide_id tbl @ [pr_fide_id r])"
proof -
  have "pr_fide_id \<circ> (\<lambda>x. if pr_fide_id x = pr_fide_id r
            then x\<lparr>pr_name := pr_name r, pr_birth_year := pr_birth_year r\<rparr> else x) = pr_fide_id"
    by (auto simp: fun_eq_iff)
  then show ?thesis by (simp add: upsert_player_def)
qed

lemma upsert_player_ids:
  "pr_fide_id ` set (upsert_player r tbl) = insert (pr_fide_id r) (pr_fide_id ` set tbl)"
proof -
  have "pr_fide_id ` set (upsert_player r tbl) = set (map pr_fide_id (upsert_player r tbl))"
    by simp
  also have "\<dots> = insert (pr_fide_id r) (pr_fide_id ` set tbl)"
    unfolding upsert_player_map_ids by auto
  finally show ?thesis .
qed

lemma fold_upsert_player_ids:
  "pr_fide_id ` set (fold upsert_player rows tbl) = pr_fide_id ` set rows \<union> pr_fide_id ` set tbl"
  by (induction rows arbitrary: tbl) (auto simp: upsert_player_ids)

lemma insert_ranking_keys:
  "ranking_key ` set (insert_ranking r tbl) = insert (ranking_key r) (ranking_key ` set tbl)"
  by (auto simp: insert_ranking_def)


lemma insert_ranking_set: "set (insert_ranking r tbl) \<subseteq> insert r (set tbl)"
  by (auto simp: insert_ranking_def)

lemma fold_insert_ranking_set: "set (fold insert_ranking rows tbl) \<subseteq> set rows \<union> set tbl"
proof (induction rows arbitrary: tbl)
  case Nil
  show ?case by simp
next
  case (Cons r rows)
  have "set (fold insert_ranking rows (insert_ranking r tbl))
      \<subseteq> set rows \<union> set (insert_ranking r tbl)"
    by (rule Cons.IH)
  also have "\<dots> \<subseteq> set rows \<union> insert r (set tbl)"
    using insert_ranking_set [of r tbl] by auto
  finally show ?case by auto
qed

lemma insert_ranking_distinct:
  "distinct (map ranking_key tbl) \<Longrightarrow> distinct (map ranking_key (insert_ranking r tbl))"
  by (auto simp: insert_ranking_def)

lemma fold_insert_ranking_distinct:
  "distinct (map ranking_key tbl) \<Longrightarrow> distinct (map ranking_key (fold insert_ranking rows tbl))"
  by (induction rows arbitrary: tbl) (simp_all add: insert_ranking_distinct)

lemma insert_ranking_present:
  "ranking_key r \<in> ranking_key ` set tbl \<Longrightarrow> insert_ranking r tbl = tbl"
  by (simp add: insert_ranking_def)


lemma insert_ranking_keeps:
  "filter (\<lambda>x. ranking_key x = k) (insert_ranking r tbl) =
     (if ranking_key r = k \<and> k \<notin> ranking_key ` set tbl then [r]
      else filter (\<lambda>x. ranking_key x = k) tbl)"
proof -
  have "k \<notin> ranking_key ` set tbl \<Longrightarrow> filter (\<lambda>x. ranking_key x = k) tbl = []"
    by (auto simp: filter_empty_conv)
  then show ?thesis by (auto simp: insert_ranking_def)
qed

subsection \<open>Sequences of requests\<close>

lemma apply_request_player_ids:
  "pr_fide_id ` set (players_table (apply_request rq c)) =
     player_ids_of rq \<union> pr_fide_id ` set (players_table c)"
  by (cases rq) (simp_all add: fold_upsert_player_ids)

lemma fold_apply_request_player_ids:
  "pr_fide_id ` set (players_table (fold apply_request rqs c)) =
     (\<Union>rq \<in> set rqs. player_ids_of rq) \<union> pr_fide_id ` set (players_table c)"
  by (induction rqs arbitrary: c) (auto simp: apply_request_player_ids)

lemma apply_request_ranking_ids:
  "rk_fide_id ` set (rankings_table (apply_request rq c)) \<subseteq>
     ranking_ids_of rq \<union> rk_fide_id ` set (rankings_table c)"
proof (cases rq)
  case (Upsert_rankings rows)
  then show ?thesis
    using fold_insert_ranking_set [of rows "rankings_table c"] by auto
qed simp_all

lemma fold_apply_request_ranking_ids:
  "rk_fide_id ` set (rankings_table (fold apply_request rqs c)) \<subseteq>
     (\<Union>rq \<in> set rqs. ranking_ids_of rq) \<union> rk_fide_id ` set (rankings_table c)"
proof (induction rqs arbitrary: c)
  case Nil
  show ?case by simp
next
  case (Cons rq rqs)
  show ?case
    using Cons.IH [of "apply_request rq c"] apply_request_ranking_ids [of rq c]
    by auto
qed

lemma fold_apply_request_executed:
  "executed (fold apply_request rqs c) = executed c @ filter (\<lambda>rq. rq \<noteq> Select_fide_ids) rqs"
proof (induction rqs arbitrary: c)
  case Nil
  show ?case by simp
next
  case (Cons rq rqs)
  show ?case by (cases rq) (simp_all add: Cons.IH)
qed

lemma seed_requests_writes:
  "filter (\<lambda>rq. rq \<noteq> Select_fide_ids) (take k (seed_requests sd sa ps)) =
     take k (seed_requests sd sa ps)"
proof -
  have "\<forall>rq \<in> set (seed_requests sd sa ps). rq \<noteq> Select_fide_ids"
    by (auto simp: seed_requests_def identity_pass_def observation_pass_def
        player_data_def ranking_data_def)
  then have "\<forall>rq \<in> set (take k (seed_requests sd sa ps)). rq \<noteq> Select_fide_ids"
    by (meson in_set_takeD)
  then show ?thesis by (simp add: filter_id_conv)
qed

lemma identity_pass_ids:
  "(\<Union>rq \<in> set (identity_pass ps). player_ids_of rq) = fide_id ` set ps"
proof -
  have "(\<Union>rq \<in> set (identity_pass ps). player_ids_of rq)
      = (\<Union>ch \<in> set (chunks batch_size ps). fide_id ` set ch)"
    by (simp add: identity_pass_def player_data_def image_image)
  also have "\<dots> = fide_id ` set (concat (chunks batch_size ps))"
    by auto
  also have "\<dots> = fide_id ` set ps"
    by (simp add: concat_chunks batch_size_def)
  finally show ?thesis .
qed

lemma observation_pass_ids:
  "(\<Union>rq \<in> set (observation_pass sd sa ps). ranking_ids_of rq) = fide_id ` set ps"
proof -
  have "(\<Union>rq \<in> set (observation_pass sd sa ps). ranking_ids_of rq)
      = (\<Union>ch \<in> set (chunks batch_size ps). fide_id ` set ch)"
    by (simp add: observation_pass_def ranking_data_def image_image)
  also have "\<dots> = fide_id ` set (concat (chunks batch_size ps))"
    by auto
  also have "\<dots> = fide_id ` set ps"
    by (simp add: concat_chunks batch_size_def)
  finally show ?thesis .
qed

lemma identity_pass_kind: "rq \<in> set (identity_pass ps) \<Longrightarrow> \<not> is_observation_write rq"
  by (auto simp: identity_pass_def player_data_def)

lemma observation_pass_kind: "rq \<in> set (observation_pass sd sa ps) \<Longrightarrow> is_observation_write rq"
  by (auto simp: observation_pass_def ranking_data_def)

text \<open>What a run does to the store, in all cases.\<close>

lemma seed_database_cases:
  "snd (seed_database e filepath data_date min_rating c) = c
   \<or> (\<exists>lines sd sa k.
        accepts e c Select_fide_ids \<and> files e filepath = Some lines
        \<and> strptime e data_date = Some (sd, sa)
        \<and> k \<le> length (seed_requests sd sa
              (parse_fide_text_file lines min_rating (pr_fide_id ` set (players_table c))))
        \<and> snd (seed_database e filepath data_date min_rating c) =
            fold apply_request
              (take k (seed_requests sd sa
                (parse_fide_text_file lines min_rating (pr_fide_id ` set (players_table c))))) c)"
proof (cases "\<not> accepts e c Select_fide_ids \<or> files e filepath = None
     \<or> strptime e data_date = None")
  case True
  then show ?thesis by (simp add: seed_database_no_writes)
next
  case False
  then obtain lines sd sa where h: "accepts e c Select_fide_ids" "files e filepath = Some lines"
    "strptime e data_date = Some (sd, sa)"
    by auto
  let ?rqs = "seed_requests sd sa
     (parse_fide_text_file lines min_rating (pr_fide_id ` set (players_table c)))"
  from run_requests_prefix [of ?rqs e c] obtain k where "k \<le> length ?rqs"
    "snd (run_requests e ?rqs c) = fold apply_request (take k ?rqs) c"
    by blast
  with h show ?thesis
    by (auto simp: seed_database_writes [OF h])
qed

subsection \<open>The two passes of a run\<close>

lemma take_seed_requests:
  "take k (seed_requests sd sa ps) =
     take k (identity_pass ps) @ take (k - length (identity_pass ps)) (observation_pass sd sa ps)"
  by (simp add: seed_requests_def)

lemma identity_write_no_ranking_ids: "\<not> is_observation_write rq \<Longrightarrow> ranking_ids_of rq = {}"
  by (cases rq) simp_all

lemma passes_ranking_ids_subset:
  assumes "\<forall>rq \<in> set ids. \<not> is_observation_write rq"
    and "(\<Union>rq \<in> set obs. ranking_ids_of rq) \<subseteq> (\<Union>rq \<in> set ids. player_ids_of rq)"
  shows "(\<Union>rq \<in> set (ids @ obs). ranking_ids_of rq)
       \<subseteq> (\<Union>rq \<in> set (ids @ obs). player_ids_of rq)"
proof -
  have "(\<Union>rq \<in> set ids. ranking_ids_of rq) = {}"
    using assms(1) by (simp add: identity_write_no_ranking_ids)
  then have "(\<Union>rq \<in> set (ids @ obs). ranking_ids_of rq) = (\<Union>rq \<in> set obs. ranking_ids_of rq)"
    by (simp add: UN_Un)
  also have "\<dots> \<subseteq> (\<Union>rq \<in> set ids. player_ids_of rq)"
    by (rule assms(2))
  also have "\<dots> \<subseteq> (\<Union>rq \<in> set (ids @ obs). player_ids_of rq)"
    by (simp add: UN_Un)
  finally show ?thesis .
qed

lemma references_ok_fold:
  assumes "references_ok c"
    and "(\<Union>rq \<in> set rqs. ranking_ids_of rq) \<subseteq> (\<Union>rq \<in> set rqs. player_ids_of rq)"
  shows "references_ok (fold apply_request rqs c)"
proof -
  have "rk_fide_id ` set (rankings_table (fold apply_request rqs c))
      \<subseteq> (\<Union>rq \<in> set rqs. ranking_ids_of rq) \<union> rk_fide_id ` set (rankings_table c)"
    by (rule fold_apply_request_ranking_ids)
  also have "\<dots> \<subseteq> (\<Union>rq \<in> set rqs. player_ids_of rq) \<union> pr_fide_id ` set (players_table c)"
    using assms by (intro Un_mono) (simp_all add: references_ok_def)
  also have "\<dots> = pr_fide_id ` set (players_table (fold apply_request rqs c))"
    by (rule fold_apply_request_player_ids [symmetric])
  finally show ?thesis by (simp add: references_ok_def)
qed

lemma take_pass_full:
  "take (k - length ids) obs \<noteq> [] \<Longrightarrow> take k ids = ids"
  by (cases "k - length ids") auto

lemma seed_database_writes_shape:
  "snd (seed_database e filepath data_date min_rating c) = c
   \<or> (\<exists>lines sd sa k.
        files e filepath = Some lines
        \<and> snd (seed_database e filepath data_date min_rating c) =
            fold apply_request
              (take k (identity_pass
                 (parse_fide_text_file lines min_rating (pr_fide_id ` set (players_table c))))
               @ take (k - length (identity_pass
                 (parse_fide_text_file lines min_rating (pr_fide_id ` set (players_table c)))))
                  (observation_pass sd sa
                    (parse_fide_text_file lines min_rating (pr_fide_id ` set (players_table c)))))
              c)"
  using seed_database_cases [of e filepath data_date min_rating c]
  unfolding take_seed_requests by blast

lemma passes_executed:
  assumes "set ids \<subseteq> set (identity_pass ps)" and "set obs \<subseteq> set (observation_pass sd sa ps)"
  shows "executed (fold apply_request (ids @ obs) c) = executed c @ ids @ obs"
proof -
  have "\<forall>rq \<in> set (ids @ obs). rq \<noteq> Select_fide_ids"
    using assms
    by (auto simp: identity_pass_def observation_pass_def player_data_def ranking_data_def)
  then have "filter (\<lambda>rq. rq \<noteq> Select_fide_ids) (ids @ obs) = ids @ obs"
    by (simp only: filter_id_conv)
  then show ?thesis
    by (simp only: fold_apply_request_executed)
qed

subsection \<open>Nothing admitted, nothing written\<close>

text \<open>
  Claim C10. When the file yields no admitted record, \<^verbatim>\<open>seed_database\<close> returns normally
  without sending a write: the connection, with both tables and the list of executed
  writes, is as it was.
\<close>

theorem empty_parse_no_writes:
  assumes "accepts e c Select_fide_ids" and "files e filepath = Some lines"
    and "parse_fide_text_file lines min_rating (pr_fide_id ` set (players_table c)) = []"
  shows "seed_database e filepath data_date min_rating c = (Inr (), c)"
  using assms by (simp add: seed_database_def get_existing_fide_ids_def)

theorem empty_parse_no_writes_witness:
  "seed_database
     (example_env
        [(''jan.txt'',
          [header, fixed_width ''5000017'' ''Short, Nigel D'' ''ENG'' ''M'' ''2499'' ''1965''])]
        (\<lambda>c rq. True))
     ''jan.txt'' ''2025-01-01'' 2500 empty_store = (Inr (), empty_store)"
proof -
  let ?lines = "[header, fixed_width ''5000017'' ''Short, Nigel D'' ''ENG'' ''M'' ''2499'' ''1965'']"
  let ?e = "example_env [(''jan.txt'', ?lines)] (\<lambda>c rq. True)"
  have h1: "accepts ?e empty_store Select_fide_ids" by (simp add: example_env_def)
  have h2: "files ?e ''jan.txt'' = Some ?lines" by (simp add: example_env_def)
  have h3: "parse_fide_text_file ?lines 2500 (pr_fide_id ` set (players_table empty_store)) = []"
    by code_simp
  show ?thesis
    by (rule empty_parse_no_writes [OF h1 h2 h3])
qed

subsection \<open>One observation per player and date\<close>

text \<open>
  Claim C3. The pairs \<open>(fide_id, scraped_date)\<close> of the stored observations stay pairwise
  different under every request; a second observation write for a key that is already
  there leaves the table as the first write left it; and after two writes with the same
  new key the table holds one row for that key, the first one written.
\<close>

theorem ranking_key_unique:
  "(rankings_unique c \<longrightarrow> rankings_unique (apply_request rq c))
   \<and> (ranking_key r2 = ranking_key r1 \<longrightarrow>
        rankings_table (apply_request (Upsert_rankings [r2]) (apply_request (Upsert_rankings [r1]) c))
          = rankings_table (apply_request (Upsert_rankings [r1]) c))
   \<and> (ranking_key r2 = ranking_key r1 \<and> ranking_key r1 \<notin> ranking_key ` set (rankings_table c) \<longrightarrow>
        filter (\<lambda>x. ranking_key x = ranking_key r1)
          (rankings_table
            (apply_request (Upsert_rankings [r2]) (apply_request (Upsert_rankings [r1]) c)))
          = [r1])"
proof (intro conjI impI)
  assume "rankings_unique c"
  then show "rankings_unique (apply_request rq c)"
    by (cases rq) (simp_all add: rankings_unique_def fold_insert_ranking_distinct)
next
  assume "ranking_key r2 = ranking_key r1"
  then show "rankings_table
      (apply_request (Upsert_rankings [r2]) (apply_request (Upsert_rankings [r1]) c))
    = rankings_table (apply_request (Upsert_rankings [r1]) c)"
    by (simp add: insert_ranking_present insert_ranking_keys)
next
  assume "ranking_key r2 = ranking_key r1 \<and> ranking_key r1 \<notin> ranking_key ` set (rankings_table c)"
  then show "filter (\<lambda>x. ranking_key x = ranking_key r1)
      (rankings_table
        (apply_request (Upsert_rankings [r2]) (apply_request (Upsert_rankings [r1]) c)))
    = [r1]"
    by (simp add: insert_ranking_keeps insert_ranking_keys)
qed

theorem ranking_key_unique_witness:
  "rankings_unique empty_store
   \<and> rankings_table
       (apply_request
          (Upsert_rankings
            [\<lparr>rk_fide_id = ''1503014'', rk_rank = None, rk_rating = 2831, rk_federation = ''NOR'',
              rk_scraped_date = ''2025-01-01'', rk_scraped_at = ''2025-01-01T00:00:00'',
              rk_data_source = ''scraper''\<rparr>])
          (apply_request
            (Upsert_rankings
              [\<lparr>rk_fide_id = ''1503014'', rk_rank = None, rk_rating = 2839, rk_federation = ''NOR'',
                rk_scraped_date = ''2025-01-01'', rk_scraped_at = ''2025-01-01T00:00:00'',
                rk_data_source = ''historical''\<rparr>])
            empty_store)) =
     [\<lparr>rk_fide_id = ''1503014'', rk_rank = None, rk_rating = 2839, rk_federation = ''NOR'',
       rk_scraped_date = ''2025-01-01'', rk_scraped_at = ''2025-01-01T00:00:00'',
       rk_data_source = ''historical''\<rparr>]
   \<and> rankings_unique
       (apply_request
          (Upsert_rankings
            [\<lparr>rk_fide_id = ''1503014'', rk_rank = None, rk_rating = 2831, rk_federation = ''NOR'',
              rk_scraped_date = ''2025-01-01'', rk_scraped_at = ''2025-01-01T00:00:00'',
              rk_data_source = ''scraper''\<rparr>])
          empty_store)"
proof -
  let ?r1 = "\<lparr>rk_fide_id = ''1503014'', rk_rank = None, rk_rating = 2839, rk_federation = ''NOR'',
       rk_scraped_date = ''2025-01-01'', rk_scraped_at = ''2025-01-01T00:00:00'',
       rk_data_source = ''historical''\<rparr>"
  let ?r2 = "\<lparr>rk_fide_id = ''1503014'', rk_rank = None, rk_rating = 2831, rk_federation = ''NOR'',
       rk_scraped_date = ''2025-01-01'', rk_scraped_at = ''2025-01-01T00:00:00'',
       rk_data_source = ''scraper''\<rparr>"
  have u: "rankings_unique empty_store"
    by (simp add: rankings_unique_def empty_store_def)
  have k: "ranking_key ?r2 = ranking_key ?r1"
    by (simp add: ranking_key_def)
  have first: "rankings_table (apply_request (Upsert_rankings [?r1]) empty_store) = [?r1]"
    by (simp add: empty_store_def insert_ranking_def)
  show ?thesis
    using ranking_key_unique [of empty_store "Upsert_rankings [?r2]" ?r2 ?r1] u k first
    by simp
qed

subsection \<open>Identities before observations\<close>

text \<open>
  Claim C6. The writes of one invocation of \<^verbatim>\<open>seed_database\<close> are identity writes followed
  by observation writes; when an observation write was executed, the identity writes are
  the whole identity pass over the admitted records; every \<open>fide_id\<close> in an observation row
  written by the invocation is in a Player row written by its identity pass; and so a store
  in which every observation refers to a stored Player is still such a store afterwards.
\<close>

theorem identity_pass_first:
  assumes run: "seed_database e filepath data_date min_rating c = (res, c')"
  shows "\<exists>ids obs.
           executed c' = executed c @ ids @ obs
         \<and> (\<forall>rq \<in> set ids. \<not> is_observation_write rq)
         \<and> (\<forall>rq \<in> set obs. is_observation_write rq)
         \<and> (obs \<noteq> [] \<longrightarrow>
              (\<exists>lines. files e filepath = Some lines
                 \<and> ids = identity_pass
                     (parse_fide_text_file lines min_rating (pr_fide_id ` set (players_table c)))))
         \<and> (\<Union>rq \<in> set obs. ranking_ids_of rq) \<subseteq> (\<Union>rq \<in> set ids. player_ids_of rq)
         \<and> (references_ok c \<longrightarrow> references_ok c')"
proof -
  from run have c': "snd (seed_database e filepath data_date min_rating c) = c'" by simp
  from seed_database_writes_shape [of e filepath data_date min_rating c]
  consider (same) "c' = c"
    | (writes) lines sd sa k where "files e filepath = Some lines"
        "c' = fold apply_request
              (take k (identity_pass
                 (parse_fide_text_file lines min_rating (pr_fide_id ` set (players_table c))))
               @ take (k - length (identity_pass
                 (parse_fide_text_file lines min_rating (pr_fide_id ` set (players_table c)))))
                  (observation_pass sd sa
                    (parse_fide_text_file lines min_rating (pr_fide_id ` set (players_table c)))))
              c"
    unfolding c' by (elim disjE exE conjE) simp_all
  then show ?thesis
  proof cases
    case same
    show ?thesis
      by (rule exI [of _ "[]"], rule exI [of _ "[]"]) (simp add: same)
  next
    case writes
    define ps where "ps = parse_fide_text_file lines min_rating (pr_fide_id ` set (players_table c))"
    define ids where "ids = take k (identity_pass ps)"
    define obs where "obs = take (k - length (identity_pass ps)) (observation_pass sd sa ps)"
    have c'_eq: "c' = fold apply_request (ids @ obs) c"
      using writes(2) by (simp only: ps_def ids_def obs_def)
    have s1: "set ids \<subseteq> set (identity_pass ps)"
      unfolding ids_def by (rule set_take_subset)
    have s2: "set obs \<subseteq> set (observation_pass sd sa ps)"
      unfolding obs_def by (rule set_take_subset)
    have ex: "executed c' = executed c @ ids @ obs"
      unfolding c'_eq by (rule passes_executed [OF s1 s2])
    have k1: "\<forall>rq \<in> set ids. \<not> is_observation_write rq"
      using s1 identity_pass_kind by blast
    have k2: "\<forall>rq \<in> set obs. is_observation_write rq"
      using s2 observation_pass_kind by blast
    have full: "ids = identity_pass ps" if "obs \<noteq> []"
      using that unfolding ids_def obs_def by (rule take_pass_full)
    have sub: "(\<Union>rq \<in> set obs. ranking_ids_of rq) \<subseteq> (\<Union>rq \<in> set ids. player_ids_of rq)"
    proof (cases "obs = []")
      case True
      then show ?thesis by simp
    next
      case False
      have "(\<Union>rq \<in> set obs. ranking_ids_of rq)
          \<subseteq> (\<Union>rq \<in> set (observation_pass sd sa ps). ranking_ids_of rq)"
        using s2 by (rule UN_mono) simp
      also have "\<dots> = (\<Union>rq \<in> set (identity_pass ps). player_ids_of rq)"
        by (simp only: observation_pass_ids identity_pass_ids)
      also have "\<dots> = (\<Union>rq \<in> set ids. player_ids_of rq)"
        using full [OF False] by simp
      finally show ?thesis .
    qed
    have ref: "references_ok c'" if "references_ok c"
      unfolding c'_eq
      by (rule references_ok_fold [OF that passes_ranking_ids_subset [OF k1 sub]])
    show ?thesis
    proof (rule exI [of _ ids], rule exI [of _ obs], intro conjI)
      show "executed c' = executed c @ ids @ obs" by (rule ex)
      show "\<forall>rq \<in> set ids. \<not> is_observation_write rq" by (rule k1)
      show "\<forall>rq \<in> set obs. is_observation_write rq" by (rule k2)
      show "obs \<noteq> [] \<longrightarrow>
          (\<exists>lines. files e filepath = Some lines
             \<and> ids = identity_pass
                 (parse_fide_text_file lines min_rating (pr_fide_id ` set (players_table c))))"
        using full writes(1) unfolding ps_def by blast
      show "(\<Union>rq \<in> set obs. ranking_ids_of rq) \<subseteq> (\<Union>rq \<in> set ids. player_ids_of rq)"
        by (rule sub)
      show "references_ok c \<longrightarrow> references_ok c'"
        using ref by blast
    qed
  qed
qed

theorem identity_pass_first_witness:
  "references_ok empty_store
   \<and> references_ok
       (snd (seed_database
          (example_env
             [(''jan.txt'',
               [header, fixed_width ''1503014'' ''Carlsen, Magnus'' ''NOR'' ''M'' ''2839'' ''1990''])]
             (\<lambda>c rq. True))
          ''jan.txt'' ''2025-01-01'' 2500 empty_store))
   \<and> executed
       (snd (seed_database
          (example_env
             [(''jan.txt'',
               [header, fixed_width ''1503014'' ''Carlsen, Magnus'' ''NOR'' ''M'' ''2839'' ''1990''])]
             (\<lambda>c rq. True))
          ''jan.txt'' ''2025-01-01'' 2500 empty_store)) =
     [Upsert_players
        [\<lparr>pr_fide_id = ''1503014'', pr_name = ''Carlsen, Magnus'', pr_birth_year = Some 1990\<rparr>],
      Upsert_rankings
        [\<lparr>rk_fide_id = ''1503014'', rk_rank = None, rk_rating = 2839, rk_federation = ''NOR'',
          rk_scraped_date = ''2025-01-01'', rk_scraped_at = ''2025-01-01T00:00:00'',
          rk_data_source = ''historical''\<rparr>]]"
proof -
  let ?e = "example_env
     [(''jan.txt'',
       [header, fixed_width ''1503014'' ''Carlsen, Magnus'' ''NOR'' ''M'' ''2839'' ''1990''])]
     (\<lambda>c rq. True)"
  let ?run = "seed_database ?e ''jan.txt'' ''2025-01-01'' 2500 empty_store"
  have run: "?run = (fst ?run, snd ?run)" by simp
  have r0: "references_ok empty_store"
    by (simp add: references_ok_def empty_store_def)
  from identity_pass_first [OF run] have "references_ok empty_store \<longrightarrow> references_ok (snd ?run)"
    by (elim exE conjE)
  with r0 have r1: "references_ok (snd ?run)" by simp
  have ex: "executed (snd ?run) =
     [Upsert_players
        [\<lparr>pr_fide_id = ''1503014'', pr_name = ''Carlsen, Magnus'', pr_birth_year = Some 1990\<rparr>],
      Upsert_rankings
        [\<lparr>rk_fide_id = ''1503014'', rk_rank = None, rk_rating = 2839, rk_federation = ''NOR'',
          rk_scraped_date = ''2025-01-01'', rk_scraped_at = ''2025-01-01T00:00:00'',
          rk_data_source = ''historical''\<rparr>]]"
    by code_simp
  from r0 r1 ex show ?thesis by (intro conjI)
qed

subsection \<open>Chunks, and a failed chunk\<close>

text \<open>
  Claim C7. The admitted records are cut into consecutive chunks of \<open>batch_size = 100\<close>, all
  full except possibly the last, and the requests of the run are one identity write per
  chunk followed by one observation write per chunk. The run executes a prefix of these
  requests: all of them when it returns normally; otherwise it stops at the first request
  the store rejects, raises that error, sends nothing after it, and the store keeps what
  the requests before it have written.
\<close>

theorem chunked_writes_abort:
  assumes "accepts e c Select_fide_ids" and "files e filepath = Some lines"
    and "strptime e data_date = Some (sd, sa)"
    and "ps = parse_fide_text_file lines min_rating (pr_fide_id ` set (players_table c))"
  shows "concat (chunks batch_size ps) = ps
       \<and> (\<forall>ch \<in> set (chunks batch_size ps). 0 < length ch \<and> length ch \<le> 100)
       \<and> (\<forall>ch \<in> set (butlast (chunks batch_size ps)). length ch = 100)
       \<and> seed_requests sd sa ps =
           map player_data (chunks batch_size ps) @ map (ranking_data sd sa) (chunks batch_size ps)
       \<and> (\<exists>k \<le> length (seed_requests sd sa ps).
             snd (seed_database e filepath data_date min_rating c) =
               fold apply_request (take k (seed_requests sd sa ps)) c
           \<and> executed (snd (seed_database e filepath data_date min_rating c)) =
               executed c @ take k (seed_requests sd sa ps)
           \<and> (k = length (seed_requests sd sa ps)
                \<and> fst (seed_database e filepath data_date min_rating c) = Inr ()
              \<or> k < length (seed_requests sd sa ps)
                \<and> fst (seed_database e filepath data_date min_rating c) = Inl APIError
                \<and> \<not> accepts e (fold apply_request (take k (seed_requests sd sa ps)) c)
                      (seed_requests sd sa ps ! k)))"
proof (intro conjI)
  show "concat (chunks batch_size ps) = ps"
    by (simp add: concat_chunks batch_size_def)
  show "\<forall>ch \<in> set (chunks batch_size ps). 0 < length ch \<and> length ch \<le> 100"
    using chunks_lengths [of _ batch_size ps] by (simp add: batch_size_def)
  show "\<forall>ch \<in> set (butlast (chunks batch_size ps)). length ch = 100"
    using chunks_full [of _ batch_size ps] by (simp add: batch_size_def)
  show "seed_requests sd sa ps =
      map player_data (chunks batch_size ps) @ map (ranking_data sd sa) (chunks batch_size ps)"
    by (simp add: seed_requests_def identity_pass_def observation_pass_def)
  define rqs where "rqs = seed_requests sd sa ps"
  have run: "seed_database e filepath data_date min_rating c = run_requests e rqs c"
    unfolding rqs_def assms(4) by (rule seed_database_writes [OF assms(1,2,3)])
  from run_requests_prefix [of rqs e c] obtain k where k: "k \<le> length rqs"
    "snd (run_requests e rqs c) = fold apply_request (take k rqs) c"
    "k = length rqs \<and> fst (run_requests e rqs c) = Inr ()
      \<or> k < length rqs \<and> fst (run_requests e rqs c) = Inl APIError
        \<and> \<not> accepts e (fold apply_request (take k rqs) c) (rqs ! k)"
    by blast
  have ex: "executed (fold apply_request (take k rqs) c) = executed c @ take k rqs"
    unfolding rqs_def by (simp only: fold_apply_request_executed seed_requests_writes)
  show "\<exists>k \<le> length (seed_requests sd sa ps).
             snd (seed_database e filepath data_date min_rating c) =
               fold apply_request (take k (seed_requests sd sa ps)) c
           \<and> executed (snd (seed_database e filepath data_date min_rating c)) =
               executed c @ take k (seed_requests sd sa ps)
           \<and> (k = length (seed_requests sd sa ps)
                \<and> fst (seed_database e filepath data_date min_rating c) = Inr ()
              \<or> k < length (seed_requests sd sa ps)
                \<and> fst (seed_database e filepath data_date min_rating c) = Inl APIError
                \<and> \<not> accepts e (fold apply_request (take k (seed_requests sd sa ps)) c)
                      (seed_requests sd sa ps ! k))"
    unfolding rqs_def [symmetric] run
    using k ex by (intro exI [of _ k]) simp
qed

theorem chunked_writes_abort_witness:
  "fst (seed_database
          (example_env
             [(''jan.txt'',
               [header, fixed_width ''1503014'' ''Carlsen, Magnus'' ''NOR'' ''M'' ''2839'' ''1990''])]
             (\<lambda>c rq. \<not> is_observation_write rq))
          ''jan.txt'' ''2025-01-01'' 2500 empty_store) = Inl APIError
   \<and> snd (seed_database
          (example_env
             [(''jan.txt'',
               [header, fixed_width ''1503014'' ''Carlsen, Magnus'' ''NOR'' ''M'' ''2839'' ''1990''])]
             (\<lambda>c rq. \<not> is_observation_write rq))
          ''jan.txt'' ''2025-01-01'' 2500 empty_store) =
     \<lparr>players_table =
        [\<lparr>pr_fide_id = ''1503014'', pr_name = ''Carlsen, Magnus'', pr_birth_year = Some 1990\<rparr>],
      rankings_table = [],
      executed =
        [Upsert_players
          [\<lparr>pr_fide_id = ''1503014'', pr_name = ''Carlsen, Magnus'',
            pr_birth_year = Some 1990\<rparr>]]\<rparr>
   \<and> (\<exists>k < 2.
        snd (seed_database
          (example_env
             [(''jan.txt'',
               [header, fixed_width ''1503014'' ''Carlsen, Magnus'' ''NOR'' ''M'' ''2839'' ''1990''])]
             (\<lambda>c rq. \<not> is_observation_write rq))
          ''jan.txt'' ''2025-01-01'' 2500 empty_store) =
        fold apply_request
          (take k
            (seed_requests ''2025-01-01'' ''2025-01-01T00:00:00''
              [\<lparr>fide_id = ''1503014'', name = ''Carlsen, Magnus'', federation = ''NOR'',
                rating = 2839, birth_year = Some 1990, sex = ''M'', title = None, rank = None\<rparr>]))
          empty_store)"
proof -
  let ?lines = "[header, fixed_width ''1503014'' ''Carlsen, Magnus'' ''NOR'' ''M'' ''2839'' ''1990'']"
  let ?e = "example_env [(''jan.txt'', ?lines)] (\<lambda>c rq. \<not> is_observation_write rq)"
  let ?ps = "[\<lparr>fide_id = ''1503014'', name = ''Carlsen, Magnus'', federation = ''NOR'',
                rating = 2839, birth_year = Some 1990, sex = ''M'', title = None, rank = None\<rparr>]"
  let ?run = "seed_database ?e ''jan.txt'' ''2025-01-01'' 2500 empty_store"
  let ?rqs = "seed_requests ''2025-01-01'' ''2025-01-01T00:00:00'' ?ps"
  have h1: "accepts ?e empty_store Select_fide_ids" by (simp add: example_env_def)
  have h2: "files ?e ''jan.txt'' = Some ?lines" by (simp add: example_env_def)
  have h3: "strptime ?e ''2025-01-01'' = Some (''2025-01-01'', ''2025-01-01T00:00:00'')"
    by (simp add: example_env_def example_strptime_def)
  have h4: "?ps = parse_fide_text_file ?lines 2500 (pr_fide_id ` set (players_table empty_store))"
    by code_simp
  have len: "length ?rqs = 2" by code_simp
  have err: "fst ?run = Inl APIError" by code_simp
  have st: "snd ?run =
     \<lparr>players_table =
        [\<lparr>pr_fide_id = ''1503014'', pr_name = ''Carlsen, Magnus'', pr_birth_year = Some 1990\<rparr>],
      rankings_table = [],
      executed =
        [Upsert_players
          [\<lparr>pr_fide_id = ''1503014'', pr_name = ''Carlsen, Magnus'',
            pr_birth_year = Some 1990\<rparr>]]\<rparr>"
    by code_simp
  from chunked_writes_abort [OF h1 h2 h3 h4]
  obtain k where k: "snd ?run = fold apply_request (take k ?rqs) empty_store"
    "k = length ?rqs \<and> fst ?run = Inr () \<or> k < length ?rqs \<and> fst ?run = Inl APIError
       \<and> \<not> accepts ?e (fold apply_request (take k ?rqs) empty_store) (?rqs ! k)"
    by (elim conjE exE) blast
  from k(2) err have "k < 2" by (simp add: len)
  with k(1) have "\<exists>k < 2. snd ?run = fold apply_request (take k ?rqs) empty_store"
    by blast
  with err st show ?thesis by (intro conjI)
qed

section \<open>Properties of the run over several files\<close>

subsection \<open>One step of the loop\<close>

declare seed_files.simps(2) [simp del]

lemma seed_files_ok:
  "seed_database e filepath data_date mr (conn w) = (Inr u, c') \<Longrightarrow>
   seed_files e mr ((filepath, data_date) # rest) w =
     seed_files e mr rest (w\<lparr>processed := processed w @ [(filepath, data_date)], conn := c'\<rparr>)"
  by (simp add: seed_files.simps(2) Let_def)

lemma seed_files_eof:
  "seed_database e filepath data_date mr (conn w) = (Inl err, c') \<Longrightarrow> stdin w = [] \<Longrightarrow>
   seed_files e mr ((filepath, data_date) # rest) w =
     (Inl EOFError, w\<lparr>processed := processed w @ [(filepath, data_date)], conn := c'\<rparr>)"
  by (simp add: seed_files.simps(2) Let_def)

lemma seed_files_abort:
  "seed_database e filepath data_date mr (conn w) = (Inl err, c') \<Longrightarrow>
   stdin w = response # later \<Longrightarrow> lower response \<noteq> ''y'' \<Longrightarrow>
   seed_files e mr ((filepath, data_date) # rest) w =
     (Inr (), w\<lparr>processed := processed w @ [(filepath, data_date)],
                 conn := c', stdin := later\<rparr>)"
  by (simp add: seed_files.simps(2) Let_def)

lemma seed_files_continue:
  "seed_database e filepath data_date mr (conn w) = (Inl err, c') \<Longrightarrow>
   stdin w = response # later \<Longrightarrow> lower response = ''y'' \<Longrightarrow>
   seed_files e mr ((filepath, data_date) # rest) w =
     seed_files e mr rest
       (w\<lparr>processed := processed w @ [(filepath, data_date)], conn := c', stdin := later\<rparr>)"
  by (simp add: seed_files.simps(2) Let_def)

lemma seed_files_cases:
  obtains (stop) res w' where "seed_files e mr (x # rest) w = (res, w')"
      "processed w' = processed w @ [x]"
  | (go) w' where "seed_files e mr (x # rest) w = seed_files e mr rest w'"
      "processed w' = processed w @ [x]"
      "stdin w' = stdin w \<or> (\<exists>r. stdin w = r # stdin w')"
proof -
  obtain filepath data_date where x: "x = (filepath, data_date)" by (cases x)
  obtain res c' where run: "seed_database e filepath data_date mr (conn w) = (res, c')"
    by (cases "seed_database e filepath data_date mr (conn w)")
  show ?thesis
  proof (cases res)
    case (Inr u)
    with run show ?thesis
      using seed_files_ok [of e filepath data_date mr w u c' rest] x
      by (intro go [of "w\<lparr>processed := processed w @ [(filepath, data_date)], conn := c'\<rparr>"])
        simp_all
  next
    case (Inl err)
    show ?thesis
    proof (cases "stdin w")
      case Nil
      with run Inl show ?thesis
        using seed_files_eof [of e filepath data_date mr w err c' rest] x
        by (intro stop [of "Inl EOFError"
              "w\<lparr>processed := processed w @ [(filepath, data_date)], conn := c'\<rparr>"]) simp_all
    next
      case (Cons response later)
      show ?thesis
      proof (cases "lower response = ''y''")
        case True
        with run Inl Cons show ?thesis
          using seed_files_continue [of e filepath data_date mr w err c' response later rest] x
          by (intro go [of "w\<lparr>processed := processed w @ [(filepath, data_date)],
                 conn := c', stdin := later\<rparr>"]) simp_all
      next
        case False
        with run Inl Cons show ?thesis
          using seed_files_abort [of e filepath data_date mr w err c' response later rest] x
          by (intro stop [of "Inr ()" "w\<lparr>processed := processed w @ [(filepath, data_date)],
                 conn := c', stdin := later\<rparr>"]) simp_all
      qed
    qed
  qed
qed

lemma seed_files_processed:
  "\<exists>k \<le> length fl. processed (snd (seed_files e mr fl w)) = processed w @ take k fl"
proof (induction fl arbitrary: w)
  case Nil
  show ?case by simp
next
  case (Cons x rest)
  show ?case
  proof (cases rule: seed_files_cases [of e mr x rest w])
    case (stop res w')
    then show ?thesis
      by (intro exI [of _ 1]) simp
  next
    case (go w')
    from Cons.IH [of w'] obtain k where "k \<le> length rest"
      "processed (snd (seed_files e mr rest w')) = processed w' @ take k rest"
      by blast
    with go show ?thesis
      by (intro exI [of _ "Suc k"]) simp
  qed
qed

lemma seed_files_all:
  assumes "length fl \<le> length (stdin w)" and "\<forall>r \<in> set (stdin w). lower r = ''y''"
  shows "processed (snd (seed_files e mr fl w)) = processed w @ fl"
  using assms
proof (induction fl arbitrary: w)
  case Nil
  show ?case by simp
next
  case (Cons x rest)
  obtain filepath data_date where x: "x = (filepath, data_date)" by (cases x)
  obtain res c' where run: "seed_database e filepath data_date mr (conn w) = (res, c')"
    by (cases "seed_database e filepath data_date mr (conn w)")
  from Cons.prems(1) obtain response later where inp: "stdin w = response # later"
    by (cases "stdin w") auto
  with Cons.prems(2) have y: "lower response = ''y''" by simp
  show ?case
  proof (cases res)
    case (Inr u)
    let ?w = "w\<lparr>processed := processed w @ [(filepath, data_date)], conn := c'\<rparr>"
    have "processed (snd (seed_files e mr rest ?w)) = processed ?w @ rest"
      using Cons.prems by (intro Cons.IH) simp_all
    with run Inr x show ?thesis
      by (simp add: seed_files_ok [of e filepath data_date mr w u c' rest])
  next
    case (Inl err)
    let ?w = "w\<lparr>processed := processed w @ [(filepath, data_date)], conn := c', stdin := later\<rparr>"
    have "processed (snd (seed_files e mr rest ?w)) = processed ?w @ rest"
      using Cons.prems inp by (intro Cons.IH) simp_all
    with run Inl x inp y show ?thesis
      by (simp add: seed_files_continue [of e filepath data_date mr w err c' response later rest])
  qed
qed

subsection \<open>The answer that continues\<close>

lemma lower_char_y: "lower_char c = CHR ''y'' \<longleftrightarrow> c = CHR ''y'' \<or> c = CHR ''Y''"
proof
  assume a: "lower_char c = CHR ''y''"
  let ?n = "of_char c :: nat"
  show "c = CHR ''y'' \<or> c = CHR ''Y''"
  proof (cases "(65 \<le> ?n \<and> ?n \<le> 90) \<or> (192 \<le> ?n \<and> ?n \<le> 222 \<and> ?n \<noteq> 215)")
    case True
    with a have "char_of (?n + 32) = CHR ''y''" by (simp add: lower_char_def Let_def)
    then have "(of_char (char_of (?n + 32)) :: nat) = of_char CHR ''y''" by simp
    then have m: "(?n + 32) mod 256 = 121" by (simp only: of_char_of) simp
    from True have "?n + 32 < 256" by linarith
    then have "(?n + 32) mod 256 = ?n + 32" by (rule mod_less)
    with m have "?n = 89" by linarith
    then have "?n = of_char CHR ''Y''" by simp
    then have "c = CHR ''Y''" by (simp only: of_char_eq_iff)
    then show ?thesis by simp
  next
    case False
    with a show ?thesis by (simp add: lower_char_def Let_def)
  qed
next
  have 1: "lower_char CHR ''y'' = CHR ''y''" by code_simp
  have 2: "lower_char CHR ''Y'' = CHR ''y''" by code_simp
  assume "c = CHR ''y'' \<or> c = CHR ''Y''"
  then show "lower_char c = CHR ''y''"
    using 1 2 by auto
qed

lemma lower_y: "lower response = ''y'' \<longleftrightarrow> response = ''y'' \<or> response = ''Y''"
proof -
  have "lower response = ''y'' \<longleftrightarrow> (\<exists>c. response = [c] \<and> lower_char c = CHR ''y'')"
    by (cases response) (auto simp: lower_def)
  then show ?thesis by (auto simp: lower_char_y)
qed

subsection \<open>Dates as strings\<close>

lemma of_char_digit: "(a::nat) < 10 \<Longrightarrow> (of_char (char_of (48 + a)) :: nat) = 48 + a"
  by (simp only: of_char_of) simp

lemma digit_char_less:
  "(a::nat) < 10 \<Longrightarrow> (b::nat) < 10 \<Longrightarrow> char_of (48 + a) < char_of (48 + b) \<longleftrightarrow> a < b"
  by (simp only: less_char_def of_char_digit) simp

lemma digit_char_eq:
  "(a::nat) < 10 \<Longrightarrow> (b::nat) < 10 \<Longrightarrow> char_of (48 + a) = char_of (48 + b) \<longleftrightarrow> a = b"
proof -
  assume a: "a < 10" and b: "b < 10"
  have "char_of (48 + a) = char_of (48 + b)
      \<longleftrightarrow> (of_char (char_of (48 + a)) :: nat) = of_char (char_of (48 + b))"
    by (simp only: of_char_eq_iff)
  also have "\<dots> \<longleftrightarrow> a = b"
    by (simp only: of_char_digit [OF a] of_char_digit [OF b]) simp
  finally show ?thesis .
qed

lemma less_by_digits:
  "(m::nat) < n \<longleftrightarrow> m div k < n div k \<or> (m div k = n div k \<and> m mod k < n mod k)"
proof (cases "m div k = n div k")
  case True
  define q where "q = k * (n div k)"
  have "m = k * (m div k) + m mod k" by simp
  then have 1: "m = q + m mod k" by (simp only: q_def True)
  have 2: "n = q + n mod k" by (simp add: q_def)
  from 1 2 have "m < n \<longleftrightarrow> m mod k < n mod k" by linarith
  with True show ?thesis by simp
next
  case False
  have "m < n \<longleftrightarrow> m div k < n div k"
  proof
    assume "m < n"
    then have "m div k \<le> n div k" by (simp add: div_le_mono)
    with False show "m div k < n div k" by simp
  next
    assume "m div k < n div k"
    then show "m < n" by (metis div_le_mono not_le)
  qed
  with False show ?thesis by simp
qed

lemma eq_by_digits: "(m::nat) = n \<longleftrightarrow> m div k = n div k \<and> m mod k = n mod k"
  by (metis div_mult_mod_eq)

lemma two_digits_less:
  assumes "m < 100" "n < 100"
  shows "two_digits m @ xs < two_digits n @ ys \<longleftrightarrow> m < n \<or> (m = n \<and> xs < ys)"
proof -
  from assms have b: "m div 10 < 10" "n div 10 < 10" "m mod 10 < 10" "n mod 10 < 10" by simp_all
  show ?thesis
    unfolding two_digits_def
    by (simp only: append_Cons append_Nil Cons_less_Cons digit_char_less b digit_char_eq
        less_by_digits [of m n 10] eq_by_digits [of m n 10]) blast
qed

lemma two_digits_le:
  assumes "m < 100" "n < 100"
  shows "two_digits m @ xs \<le> two_digits n @ ys \<longleftrightarrow> m < n \<or> (m = n \<and> xs \<le> ys)"
proof -
  from assms have b: "m div 10 < 10" "n div 10 < 10" "m mod 10 < 10" "n mod 10 < 10" by simp_all
  show ?thesis
    unfolding two_digits_def
    by (simp only: append_Cons append_Nil Cons_le_Cons digit_char_less b digit_char_eq
        less_by_digits [of m n 10] eq_by_digits [of m n 10]) blast
qed

lemma iso_date_le:
  assumes "y < 10000" "y' < 10000" "m < 100" "m' < 100" "d < 100" "d' < 100"
  shows "iso_date y m d \<le> iso_date y' m' d'
     \<longleftrightarrow> y < y' \<or> (y = y' \<and> (m < m' \<or> (m = m' \<and> d \<le> d')))"
proof -
  from assms(1,2) have c: "y div 100 < 100" "y' div 100 < 100" "y mod 100 < 100" "y' mod 100 < 100"
    by simp_all
  have day: "two_digits d \<le> two_digits d' \<longleftrightarrow> d \<le> d'"
    using two_digits_le [OF assms(5,6), of "[]" "[]"] by auto
  have "iso_date y m d \<le> iso_date y' m' d' \<longleftrightarrow>
      y div 100 < y' div 100 \<or> (y div 100 = y' div 100 \<and>
        (y mod 100 < y' mod 100 \<or> (y mod 100 = y' mod 100 \<and>
          (m < m' \<or> (m = m' \<and> d \<le> d')))))"
    unfolding iso_date_def
    by (simp only: two_digits_le [OF c(1,2)] two_digits_le [OF c(3,4)]
        two_digits_le [OF assms(3,4)] append_Cons append_Nil Cons_le_Cons day) simp
  also have "\<dots> \<longleftrightarrow> y < y' \<or> (y = y' \<and> (m < m' \<or> (m = m' \<and> d \<le> d')))"
    unfolding less_by_digits [of y y' 100] eq_by_digits [of y y' 100] by blast
  finally show ?thesis .
qed

subsection \<open>Date order\<close>

text \<open>
  Each turn of the loop announces its pair and makes one run of \<^verbatim>\<open>seed_database\<close> on the
  store the turn before left; the loop ends early only after a failed run.
\<close>

lemma seed_files_step:
  obtains (stop) res w' where "seed_files e mr (x # rest) w = (res, w')"
      "processed w' = processed w @ [x]" "conn w' = run_one e mr x (conn w)"
  | (go) w' where "seed_files e mr (x # rest) w = seed_files e mr rest w'"
      "processed w' = processed w @ [x]" "conn w' = run_one e mr x (conn w)"
proof -
  obtain filepath data_date where x: "x = (filepath, data_date)" by (cases x)
  obtain res c' where run: "seed_database e filepath data_date mr (conn w) = (res, c')"
    by (cases "seed_database e filepath data_date mr (conn w)")
  then have c': "run_one e mr x (conn w) = c'" by (simp add: run_one_def x)
  show ?thesis
  proof (cases res)
    case (Inr u)
    with run show ?thesis
      using seed_files_ok [of e filepath data_date mr w u c' rest] x c'
      by (intro go [of "w\<lparr>processed := processed w @ [(filepath, data_date)], conn := c'\<rparr>"])
        simp_all
  next
    case (Inl err)
    show ?thesis
    proof (cases "stdin w")
      case Nil
      with run Inl show ?thesis
        using seed_files_eof [of e filepath data_date mr w err c' rest] x c'
        by (intro stop [of "Inl EOFError"
              "w\<lparr>processed := processed w @ [(filepath, data_date)], conn := c'\<rparr>"]) simp_all
    next
      case (Cons response later)
      show ?thesis
      proof (cases "lower response = ''y''")
        case True
        with run Inl Cons show ?thesis
          using seed_files_continue [of e filepath data_date mr w err c' response later rest] x c'
          by (intro go [of "w\<lparr>processed := processed w @ [(filepath, data_date)],
                 conn := c', stdin := later\<rparr>"]) simp_all
      next
        case False
        with run Inl Cons show ?thesis
          using seed_files_abort [of e filepath data_date mr w err c' response later rest] x c'
          by (intro stop [of "Inr ()" "w\<lparr>processed := processed w @ [(filepath, data_date)],
                 conn := c', stdin := later\<rparr>"]) simp_all
      qed
    qed
  qed
qed

lemma seed_files_runs:
  "\<exists>k \<le> length fl.
     processed (snd (seed_files e mr fl w)) = processed w @ take k fl
     \<and> conn (snd (seed_files e mr fl w)) = fold (run_one e mr) (take k fl) (conn w)"
proof (induction fl arbitrary: w)
  case Nil
  show ?case by simp
next
  case (Cons x rest)
  show ?case
  proof (cases rule: seed_files_step [of e mr x rest w])
    case (stop res w')
    then show ?thesis
      by (intro exI [of _ 1]) simp
  next
    case (go w')
    from Cons.IH [of w'] obtain k where "k \<le> length rest"
      "processed (snd (seed_files e mr rest w')) = processed w' @ take k rest"
      "conn (snd (seed_files e mr rest w')) = fold (run_one e mr) (take k rest) (conn w')"
      by blast
    with go show ?thesis
      by (intro exI [of _ "Suc k"]) simp
  qed
qed

text \<open>
  So the store that \<^verbatim>\<open>seed_multiple_files\<close> leaves is the one after the runs of
  \<^verbatim>\<open>seed_database\<close> for the first \<open>k\<close> pairs of the list sorted by the date strings, made
  in that order. The key of the sort is the string the caller gave, compared as Python
  compares strings.
\<close>

lemma seed_multiple_files_runs:
  "\<exists>k \<le> length file_list.
     processed (snd (seed_multiple_files e file_list min_rating w)) =
       processed w @ take k (sort_key snd file_list)
     \<and> conn (snd (seed_multiple_files e file_list min_rating w)) =
       fold (run_one e min_rating) (take k (sort_key snd file_list)) (conn w)"
  using seed_files_runs [of "sort_key snd file_list" e min_rating w]
  by (simp add: seed_multiple_files_def)

text \<open>
  With the dates of the specification's example, \<open>fileA\<close> is run before \<open>fileB\<close>: the
  store's log holds the writes for January, then those for February.
\<close>

lemma january_before_february:
  "map (\<lambda>x. calendar_date (snd x)) [(''fileB'', ''2025-02-01''), (''fileA'', ''2025-01-01'')] =
     [Some (2025, 2, 1), Some (2025, 1, 1)]
   \<and> seed_multiple_files
       (python_env [(''fileA'', sep_file), (''fileB'', oct_file)] (\<lambda>c rq. True))
       [(''fileB'', ''2025-02-01''), (''fileA'', ''2025-01-01'')] 2400
       \<lparr>conn = empty_store, stdin = [], processed = []\<rparr> =
     (Inr (),
      \<lparr>conn =
         \<lparr>players_table =
            [\<lparr>pr_fide_id = ''1503014'', pr_name = ''Carlsen, Magnus'',
              pr_birth_year = Some 1990\<rparr>],
          rankings_table =
            [\<lparr>rk_fide_id = ''1503014'', rk_rank = None, rk_rating = 2499,
              rk_federation = ''NOR'', rk_scraped_date = ''2025-01-01'',
              rk_scraped_at = ''2025-01-01T00:00:00'', rk_data_source = ''historical''\<rparr>,
             \<lparr>rk_fide_id = ''1503014'', rk_rank = None, rk_rating = 2839,
              rk_federation = ''NOR'', rk_scraped_date = ''2025-02-01'',
              rk_scraped_at = ''2025-02-01T00:00:00'', rk_data_source = ''historical''\<rparr>],
          executed =
            [Upsert_players
               [\<lparr>pr_fide_id = ''1503014'', pr_name = ''Carlsen, Magnus'',
                 pr_birth_year = Some 1990\<rparr>],
             Upsert_rankings
               [\<lparr>rk_fide_id = ''1503014'', rk_rank = None, rk_rating = 2499,
                 rk_federation = ''NOR'', rk_scraped_date = ''2025-01-01'',
                 rk_scraped_at = ''2025-01-01T00:00:00'', rk_data_source = ''historical''\<rparr>],
             Upsert_players
               [\<lparr>pr_fide_id = ''1503014'', pr_name = ''Carlsen, Magnus'',
                 pr_birth_year = Some 1990\<rparr>],
             Upsert_rankings
               [\<lparr>rk_fide_id = ''1503014'', rk_rank = None, rk_rating = 2839,
                 rk_federation = ''NOR'', rk_scraped_date = ''2025-02-01'',
                 rk_scraped_at = ''2025-02-01T00:00:00'', rk_data_source = ''historical''\<rparr>]]\<rparr>,
       stdin = [],
       processed = [(''fileA'', ''2025-01-01''), (''fileB'', ''2025-02-01'')]\<rparr>)"
  by (intro conjI; code_simp)

text \<open>
  Claim C2. The list is to be processed in ascending order of date, whatever order the caller
  gave; the comments on \<^verbatim>\<open>seed_multiple_files\<close> say the same (\<open>in chronological order\<close>,
  \<open>Sort by date to ensure chronological order\<close>). The code sorts by the date strings as
  given, and \<^verbatim>\<open>strptime\<close> also accepts a date whose month or day has one digit. For the
  list \<^verbatim>\<open>[('sep.txt', '2025-9-01'), ('oct.txt', '2025-10-01')]\<close>, both dates accepted (1
  September and 1 October 2025), the run for October is made before the run for September:
  its writes come first in the store's log. The order decides what is stored: September's
  record, rated 2499, is below the threshold of 2500 and is admitted only because October's
  run has stored the player by then. Run in the order of the calendar, September's file
  writes nothing.
\<close>

theorem unpadded_dates_out_of_order:
  "calendar_date ''2025-9-01'' = Some (2025, 9, 1)
   \<and> calendar_date ''2025-10-01'' = Some (2025, 10, 1)
   \<and> seed_multiple_files unpadded_env
       [(''sep.txt'', ''2025-9-01''), (''oct.txt'', ''2025-10-01'')] 2500
       \<lparr>conn = empty_store, stdin = [], processed = []\<rparr> =
     (Inr (),
      \<lparr>conn =
         \<lparr>players_table =
            [\<lparr>pr_fide_id = ''1503014'', pr_name = ''Carlsen, Magnus'',
              pr_birth_year = Some 1990\<rparr>],
          rankings_table =
            [\<lparr>rk_fide_id = ''1503014'', rk_rank = None, rk_rating = 2839,
              rk_federation = ''NOR'', rk_scraped_date = ''2025-10-01'',
              rk_scraped_at = ''2025-10-01T00:00:00'', rk_data_source = ''historical''\<rparr>,
             \<lparr>rk_fide_id = ''1503014'', rk_rank = None, rk_rating = 2499,
              rk_federation = ''NOR'', rk_scraped_date = ''2025-09-01'',
              rk_scraped_at = ''2025-09-01T00:00:00'', rk_data_source = ''historical''\<rparr>],
          executed =
            [Upsert_players
               [\<lparr>pr_fide_id = ''1503014'', pr_name = ''Carlsen, Magnus'',
                 pr_birth_year = Some 1990\<rparr>],
             Upsert_rankings
               [\<lparr>rk_fide_id = ''1503014'', rk_rank = None, rk_rating = 2839,
                 rk_federation = ''NOR'', rk_scraped_date = ''2025-10-01'',
                 rk_scraped_at = ''2025-10-01T00:00:00'', rk_data_source = ''historical''\<rparr>],
             Upsert_players
               [\<lparr>pr_fide_id = ''1503014'', pr_name = ''Carlsen, Magnus'',
                 pr_birth_year = Some 1990\<rparr>],
             Upsert_rankings
               [\<lparr>rk_fide_id = ''1503014'', rk_rank = None, rk_rating = 2499,
                 rk_federation = ''NOR'', rk_scraped_date = ''2025-09-01'',
                 rk_scraped_at = ''2025-09-01T00:00:00'', rk_data_source = ''historical''\<rparr>]]\<rparr>,
       stdin = [],
       processed = [(''oct.txt'', ''2025-10-01''), (''sep.txt'', ''2025-9-01'')]\<rparr>)
   \<and> seed_files unpadded_env 2500
       [(''sep.txt'', ''2025-9-01''), (''oct.txt'', ''2025-10-01'')]
       \<lparr>conn = empty_store, stdin = [], processed = []\<rparr> =
     (Inr (),
      \<lparr>conn =
         \<lparr>players_table =
            [\<lparr>pr_fide_id = ''1503014'', pr_name = ''Carlsen, Magnus'',
              pr_birth_year = Some 1990\<rparr>],
          rankings_table =
            [\<lparr>rk_fide_id = ''1503014'', rk_rank = None, rk_rating = 2839,
              rk_federation = ''NOR'', rk_scraped_date = ''2025-10-01'',
              rk_scraped_at = ''2025-10-01T00:00:00'', rk_data_source = ''historical''\<rparr>],
          executed =
            [Upsert_players
               [\<lparr>pr_fide_id = ''1503014'', pr_name = ''Carlsen, Magnus'',
                 pr_birth_year = Some 1990\<rparr>],
             Upsert_rankings
               [\<lparr>rk_fide_id = ''1503014'', rk_rank = None, rk_rating = 2839,
                 rk_federation = ''NOR'', rk_scraped_date = ''2025-10-01'',
                 rk_scraped_at = ''2025-10-01T00:00:00'', rk_data_source = ''historical''\<rparr>]]\<rparr>,
       stdin = [],
       processed = [(''sep.txt'', ''2025-9-01''), (''oct.txt'', ''2025-10-01'')]\<rparr>)"
  by (intro conjI; code_simp)

subsection \<open>After a failed run\<close>

text \<open>
  Claim C9, as stated, fails: the decision to go on is not supplied by the caller. With the
  same arguments, the same files and the same store, what is processed depends on the line
  typed at the prompt.
\<close>

theorem console_answer_decides:
  "processed
     (snd (seed_multiple_files (example_env [] (\<lambda>c rq. True))
        [(''fileB'', ''2025-02-01''), (''fileA'', ''2025-01-01'')] 2500
        \<lparr>conn = empty_store, stdin = [''y'', ''y''], processed = []\<rparr>))
   \<noteq> processed
     (snd (seed_multiple_files (example_env [] (\<lambda>c rq. True))
        [(''fileB'', ''2025-02-01''), (''fileA'', ''2025-01-01'')] 2500
        \<lparr>conn = empty_store, stdin = [''n'', ''y''], processed = []\<rparr>))"
  by code_simp

text \<open>
  Claim C9, amended. When the run for a pair fails, \<^verbatim>\<open>seed_multiple_files\<close> reads one line
  from the console. If the line, in lower case, is \<open>y\<close> (the line is \<open>y\<close> or \<open>Y\<close>), the loop
  goes on with the next pair in date order, which is processed next; on any other line the
  function returns normally and none of the remaining pairs is processed.
\<close>

theorem failure_prompt:
  assumes "seed_database e filepath data_date min_rating (conn w) = (Inl err, c')"
    and "stdin w = response # later"
  shows "(lower response = ''y'' \<longleftrightarrow> response = ''y'' \<or> response = ''Y'')
       \<and> (lower response = ''y'' \<longrightarrow>
            seed_files e min_rating ((filepath, data_date) # nxt # rest) w =
              seed_files e min_rating (nxt # rest)
                (w\<lparr>processed := processed w @ [(filepath, data_date)], conn := c',
                   stdin := later\<rparr>)
            \<and> (\<exists>k \<le> length rest.
                 processed (snd (seed_files e min_rating ((filepath, data_date) # nxt # rest) w)) =
                   processed w @ (filepath, data_date) # nxt # take k rest))
       \<and> (lower response \<noteq> ''y'' \<longrightarrow>
            seed_files e min_rating ((filepath, data_date) # queue) w =
              (Inr (), w\<lparr>processed := processed w @ [(filepath, data_date)], conn := c',
                          stdin := later\<rparr>))"
proof (intro conjI impI)
  show "lower response = ''y'' \<longleftrightarrow> response = ''y'' \<or> response = ''Y''" by (rule lower_y)
next
  assume y: "lower response = ''y''"
  let ?w = "w\<lparr>processed := processed w @ [(filepath, data_date)], conn := c', stdin := later\<rparr>"
  show step: "seed_files e min_rating ((filepath, data_date) # nxt # rest) w =
      seed_files e min_rating (nxt # rest) ?w"
    by (rule seed_files_continue [OF assms y])
  have "\<exists>k \<le> length rest. processed (snd (seed_files e min_rating (nxt # rest) ?w)) =
      processed ?w @ nxt # take k rest"
  proof (cases rule: seed_files_cases [of e min_rating nxt rest ?w])
    case (stop res w')
    then show ?thesis by (intro exI [of _ 0]) simp
  next
    case (go w')
    from seed_files_processed [of rest e min_rating w'] obtain k where "k \<le> length rest"
      "processed (snd (seed_files e min_rating rest w')) = processed w' @ take k rest"
      by blast
    with go show ?thesis by (intro exI [of _ k]) simp
  qed
  then have "\<exists>k \<le> length rest. processed (snd (seed_files e min_rating (nxt # rest) ?w)) =
      processed w @ (filepath, data_date) # nxt # take k rest"
    by simp
  then show "\<exists>k \<le> length rest.
      processed (snd (seed_files e min_rating ((filepath, data_date) # nxt # rest) w)) =
        processed w @ (filepath, data_date) # nxt # take k rest"
    by (simp only: step)
next
  assume n: "lower response \<noteq> ''y''"
  show "seed_files e min_rating ((filepath, data_date) # queue) w =
      (Inr (), w\<lparr>processed := processed w @ [(filepath, data_date)], conn := c',
                  stdin := later\<rparr>)"
    by (rule seed_files_abort [OF assms n])
qed

theorem failure_prompt_witness:
  "processed
     (snd (seed_files (example_env [] (\<lambda>c rq. True)) 2500
        [(''fileA'', ''2025-01-01''), (''fileB'', ''2025-02-01'')]
        \<lparr>conn = empty_store, stdin = [''Y''], processed = []\<rparr>)) =
     [(''fileA'', ''2025-01-01''), (''fileB'', ''2025-02-01'')]
   \<and> seed_files (example_env [] (\<lambda>c rq. True)) 2500
        [(''fileA'', ''2025-01-01''), (''fileB'', ''2025-02-01'')]
        \<lparr>conn = empty_store, stdin = [''no''], processed = []\<rparr> =
     (Inr (), \<lparr>conn = empty_store, stdin = [], processed = [(''fileA'', ''2025-01-01'')]\<rparr>)"
proof -
  let ?e = "example_env [] (\<lambda>c rq. True)"
  let ?wy = "\<lparr>conn = empty_store, stdin = [''Y''], processed = []\<rparr>"
  let ?wn = "\<lparr>conn = empty_store, stdin = [''no''], processed = []\<rparr>"
  have fail: "seed_database ?e ''fileA'' ''2025-01-01'' 2500 empty_store
      = (Inl FileNotFoundError, empty_store)"
    by (simp add: seed_database_def get_existing_fide_ids_def example_env_def)
  have fy: "seed_database ?e ''fileA'' ''2025-01-01'' 2500 (conn ?wy)
      = (Inl FileNotFoundError, empty_store)"
    using fail by simp
  have fn: "seed_database ?e ''fileA'' ''2025-01-01'' 2500 (conn ?wn)
      = (Inl FileNotFoundError, empty_store)"
    using fail by simp
  have iy: "stdin ?wy = ''Y'' # []" by simp
  have i_n: "stdin ?wn = ''no'' # []" by simp
  have y: "lower ''Y'' = ''y''" by code_simp
  have n: "lower ''no'' \<noteq> ''y''" by code_simp
  from failure_prompt [OF fy iy, of "(''fileB'', ''2025-02-01'')" "[]"] y
  have "\<exists>k \<le> length ([] :: (string \<times> string) list).
      processed (snd (seed_files ?e 2500
        [(''fileA'', ''2025-01-01''), (''fileB'', ''2025-02-01'')] ?wy)) =
      processed ?wy @ (''fileA'', ''2025-01-01'') # (''fileB'', ''2025-02-01'') # take k []"
    by blast
  then have a: "processed (snd (seed_files ?e 2500
        [(''fileA'', ''2025-01-01''), (''fileB'', ''2025-02-01'')] ?wy)) =
     [(''fileA'', ''2025-01-01''), (''fileB'', ''2025-02-01'')]"
    by simp
  from failure_prompt [OF fn i_n, of _ _ "[(''fileB'', ''2025-02-01'')]"] n
  have "seed_files ?e 2500 [(''fileA'', ''2025-01-01''), (''fileB'', ''2025-02-01'')] ?wn =
     (Inr (), ?wn\<lparr>processed := processed ?wn @ [(''fileA'', ''2025-01-01'')],
        conn := empty_store, stdin := []\<rparr>)"
    by blast
  then have b: "seed_files ?e 2500 [(''fileA'', ''2025-01-01''), (''fileB'', ''2025-02-01'')] ?wn =
     (Inr (), \<lparr>conn = empty_store, stdin = [], processed = [(''fileA'', ''2025-01-01'')]\<rparr>)"
    by simp
  from a b show ?thesis by (rule conjI)
qed

section \<open>Running a file twice\<close>

subsection \<open>Rows that are already stored\<close>





















lemma ranking_row_of_key: "ranking_key (ranking_row_of sd sa p) = (fide_id p, sd)"
  by (simp add: ranking_row_of_def ranking_key_def)




subsection \<open>Lines laid out by the format parse back to their fields\<close>









subsection \<open>A file with a repeated identifier\<close>



















lemma chunks_exact: "length xs = n \<Longrightarrow> 0 < n \<Longrightarrow> chunks n xs = [xs]"
  by (subst chunks.simps) auto








end
